theory Spec2Isabelle
  imports Main "HOL-Library.Word" "HOL-Library.Monad_Syntax"
begin

unbundle bit_operations_syntax

section \<open>Go values\<close>

text \<open>
  Bytes and machine words are words of their width. A Go \<^verbatim>\<open>[]byte\<close> and the bytes of a
  Go \<^verbatim>\<open>string\<close> are byte lists. A Go \<^verbatim>\<open>error\<close> is \<open>None\<close> for \<^verbatim>\<open>nil\<close> and
  \<open>Some msg\<close> for \<^verbatim>\<open>errors.New(msg)\<close>. A call that may panic returns an option:
  \<open>None\<close> is the panic, \<open>Some r\<close> the normal return.
\<close>

type_synonym byte = "8 word"
type_synonym uint32 = "32 word"
type_synonym uint64 = "64 word"
type_synonym gostring = "byte list"
type_synonym goerror = "string option"

text \<open>\<^verbatim>\<open>xs[:n]\<close>: panics when \<open>n\<close> is beyond the length.\<close>

definition slice_to :: "'a list \<Rightarrow> nat \<Rightarrow> 'a list option" where
  "slice_to xs n = (if n \<le> length xs then Some (take n xs) else None)"

text \<open>\<^verbatim>\<open>copy(dst, src)\<close>: the new contents of \<open>dst\<close> and the number of bytes copied.\<close>

definition copy_bytes :: "'a list \<Rightarrow> 'a list \<Rightarrow> 'a list \<times> nat" where
  "copy_bytes dst src =
     (let n = min (length dst) (length src) in (take n src @ drop n dst, n))"

section \<open>Byte-order helpers\<close>

definition putUint64 :: "byte list \<Rightarrow> uint64 \<Rightarrow> byte list option" where
  "putUint64 x s =
     (if length x \<le> 7 then None
      else Some (x[0 := ucast (drop_bit 56 s), 1 := ucast (drop_bit 48 s),
                   2 := ucast (drop_bit 40 s), 3 := ucast (drop_bit 32 s),
                   4 := ucast (drop_bit 24 s), 5 := ucast (drop_bit 16 s),
                   6 := ucast (drop_bit 8 s), 7 := ucast s]))"

definition putUint32 :: "byte list \<Rightarrow> uint32 \<Rightarrow> byte list option" where
  "putUint32 x s =
     (if length x \<le> 3 then None
      else Some (x[0 := ucast (drop_bit 24 s), 1 := ucast (drop_bit 16 s),
                   2 := ucast (drop_bit 8 s), 3 := ucast s]))"

definition appendUint64 :: "byte list \<Rightarrow> uint64 \<Rightarrow> byte list option" where
  "appendUint64 b x = do { a \<leftarrow> putUint64 (replicate 8 0) x; Some (b @ a) }"

definition appendUint32 :: "byte list \<Rightarrow> uint32 \<Rightarrow> byte list option" where
  "appendUint32 b x = do { a \<leftarrow> putUint32 (replicate 4 0) x; Some (b @ a) }"

definition consumeUint64 :: "byte list \<Rightarrow> (byte list \<times> uint64) option" where
  "consumeUint64 b =
     (if length b \<le> 7 then None
      else Some (drop 8 b,
        ucast (b ! 7) OR push_bit 8 (ucast (b ! 6)) OR push_bit 16 (ucast (b ! 5))
          OR push_bit 24 (ucast (b ! 4)) OR push_bit 32 (ucast (b ! 3))
          OR push_bit 40 (ucast (b ! 2)) OR push_bit 48 (ucast (b ! 1))
          OR push_bit 56 (ucast (b ! 0))))"

definition consumeUint32 :: "byte list \<Rightarrow> (byte list \<times> uint32) option" where
  "consumeUint32 b =
     (if length b \<le> 3 then None
      else Some (drop 4 b,
        ucast (b ! 3) OR push_bit 8 (ucast (b ! 2)) OR push_bit 16 (ucast (b ! 1))
          OR push_bit 24 (ucast (b ! 0))))"

text \<open>The four and eight bytes the two put functions write, most significant first.\<close>

definition be32 :: "uint32 \<Rightarrow> byte list" where
  "be32 s = [ucast (drop_bit 24 s), ucast (drop_bit 16 s), ucast (drop_bit 8 s), ucast s]"

definition be64 :: "uint64 \<Rightarrow> byte list" where
  "be64 s = [ucast (drop_bit 56 s), ucast (drop_bit 48 s), ucast (drop_bit 40 s),
             ucast (drop_bit 32 s), ucast (drop_bit 24 s), ucast (drop_bit 16 s),
             ucast (drop_bit 8 s), ucast s]"

section \<open>The hash contexts\<close>

text \<open>
  The three context structs \<^verbatim>\<open>sha1Ctx\<close>, \<^verbatim>\<open>sha256Ctx\<close> and \<^verbatim>\<open>sha512Ctx\<close> have the same
  five fields \<^verbatim>\<open>h, nl, nh, x, nx\<close> and differ in the array of chaining values (\<open>'h\<close>) and
  in the width of the two counters (\<open>'n\<close>). The arrays \<^verbatim>\<open>[5]uint32\<close>, \<^verbatim>\<open>[8]uint32\<close> and
  \<^verbatim>\<open>[8]uint64\<close> are tuples; the buffer \<^verbatim>\<open>x\<close> is a byte list whose length is the block size.
\<close>

record ('h, 'n) shaCtx =
  ctx_h :: 'h
  ctx_nl :: 'n
  ctx_nh :: 'n
  ctx_x :: "byte list"
  ctx_nx :: uint32

type_synonym h5 = "uint32 \<times> uint32 \<times> uint32 \<times> uint32 \<times> uint32"
type_synonym h8 = "uint32 \<times> uint32 \<times> uint32 \<times> uint32 \<times> uint32 \<times> uint32 \<times> uint32 \<times> uint32"
type_synonym h8l = "uint64 \<times> uint64 \<times> uint64 \<times> uint64 \<times> uint64 \<times> uint64 \<times> uint64 \<times> uint64"

type_synonym sha1Ctx = "(h5, uint32) shaCtx"
type_synonym sha256Ctx = "(h8, uint32) shaCtx"
type_synonym sha512Ctx = "(h8l, uint64) shaCtx"

text \<open>The adapter structs \<^verbatim>\<open>sha1Hash\<close> ... \<^verbatim>\<open>sha512Hash\<close>: a context and the digest array.\<close>

record 'c boringHash =
  ctx :: 'c
  out :: "byte list"

type_synonym sha1Hash = "sha1Ctx boringHash"
type_synonym sha224Hash = "sha256Ctx boringHash"
type_synonym sha256Hash = "sha256Ctx boringHash"
type_synonym sha384Hash = "sha512Ctx boringHash"
type_synonym sha512Hash = "sha512Ctx boringHash"

section \<open>The primitive library\<close>

text \<open>
  Modelled from the spec: the algorithms of the external library, whose Init/Update/Final
  triads the repository only calls. An algorithm is given by its initial chaining values,
  its compression function (one block into the chaining values) and its finalisation (the
  digest of a stream with the given chaining values, unprocessed tail and length in bits).
  All three are parameters: every theorem below holds for any algorithm.
\<close>

record 'h alg =
  alg_iv :: 'h
  alg_block :: "'h \<Rightarrow> byte list \<Rightarrow> 'h"
  alg_final :: "'h \<Rightarrow> byte list \<Rightarrow> nat \<Rightarrow> byte list"

text \<open>
  The total-bits-processed counter, split into the two counters \<open>nh\<close> (high) and \<open>nl\<close>
  (low) of the context.
\<close>

definition bitcount :: "('h, 'w::len word) shaCtx \<Rightarrow> nat" where
  "bitcount c = unat (ctx_nh c) * 2 ^ LENGTH('w) + unat (ctx_nl c)"

text \<open>
  Modelled from the spec: a full block is always absorbed into the chaining values at once
  and never left buffered. As long as a full block is available, it is compressed; what is
  returned are the chaining values and the tail, shorter than a block.
\<close>

fun absorb :: "nat \<Rightarrow> ('h \<Rightarrow> byte list \<Rightarrow> 'h) \<Rightarrow> 'h \<Rightarrow> byte list \<Rightarrow> 'h \<times> byte list" where
  "absorb bs f hv buf =
     (if 0 < bs \<and> bs \<le> length buf then absorb bs f (f hv (take bs buf)) (drop bs buf)
      else (hv, buf))"

declare absorb.simps [simp del]

text \<open>
  Modelled from the spec: the primitive \<^verbatim>\<open>Init\<close>, external to the repository. Chaining
  values are set to the algorithm's initial constants, buffer and counters are zeroed.
\<close>

definition prim_Init ::
  "nat \<Rightarrow> 'h alg \<Rightarrow> ('h, 'w::len word) shaCtx \<Rightarrow> ('h, 'w word) shaCtx" where
  "prim_Init bs A c =
     c\<lparr>ctx_h := alg_iv A, ctx_nl := 0, ctx_nh := 0, ctx_x := replicate bs 0, ctx_nx := 0\<rparr>"

text \<open>
  Modelled from the spec: the primitive \<^verbatim>\<open>Update\<close>, external to the repository. It
  returns the success flag and the new context. The flag is 0 only for a malformed context
  (a buffer count that is not below the block size). Otherwise the input is absorbed: every
  full block of the pending bytes followed by the input is compressed into the chaining
  values, the tail that is left becomes the pending bytes (at the front of the buffer; the
  bytes behind them are not touched), and the bit counter advances by eight times the
  length of the input, modulo its two words.
\<close>

definition prim_Update ::
  "nat \<Rightarrow> 'h alg \<Rightarrow> ('h, 'w::len word) shaCtx \<Rightarrow> byte list \<Rightarrow> int \<times> ('h, 'w word) shaCtx" where
  "prim_Update bs A c p =
     (if bs \<le> unat (ctx_nx c) then (0, c)
      else
        (let (hv, rest) = absorb bs (alg_block A) (ctx_h c) (take (unat (ctx_nx c)) (ctx_x c) @ p);
             t = bitcount c + 8 * length p
         in (1, c\<lparr>ctx_h := hv,
                   ctx_nl := of_nat t,
                   ctx_nh := of_nat (t div 2 ^ LENGTH('w)),
                   ctx_x := rest @ drop (length rest) (ctx_x c),
                   ctx_nx := of_nat (length rest)\<rparr>)))"

text \<open>
  Modelled from the spec: the primitive \<^verbatim>\<open>Final\<close>, external to the repository. It returns
  the success flag, the fixed-size digest and the context it leaves behind. The flag is 0
  only for a malformed context. The digest is the algorithm's finalisation of the chaining
  values, the pending bytes and the bit count. The spec does not say what is left in the
  context; here the buffer is wiped, and nothing below depends on it.
\<close>

definition prim_Final ::
  "nat \<Rightarrow> 'h alg \<Rightarrow> ('h, 'w::len word) shaCtx \<Rightarrow> int \<times> byte list \<times> ('h, 'w word) shaCtx" where
  "prim_Final bs A c =
     (if bs \<le> unat (ctx_nx c) then (0, [], c)
      else (1, alg_final A (ctx_h c) (take (unat (ctx_nx c)) (ctx_x c)) (bitcount c),
            c\<lparr>ctx_x := replicate bs 0, ctx_nx := 0\<rparr>))"

text \<open>
  Modelled from the spec: the triad of each algorithm family is the primitive at the
  family's block size, 64 bytes for the 32-bit-word variants and 128 bytes for the
  64-bit-word variants.
\<close>

definition SHA1_Init :: "h5 alg \<Rightarrow> sha1Ctx \<Rightarrow> sha1Ctx" where
  "SHA1_Init = prim_Init 64"

definition SHA1_Update :: "h5 alg \<Rightarrow> sha1Ctx \<Rightarrow> byte list \<Rightarrow> int \<times> sha1Ctx" where
  "SHA1_Update = prim_Update 64"

definition SHA1_Final :: "h5 alg \<Rightarrow> sha1Ctx \<Rightarrow> int \<times> byte list \<times> sha1Ctx" where
  "SHA1_Final = prim_Final 64"

definition SHA224_Init :: "h8 alg \<Rightarrow> sha256Ctx \<Rightarrow> sha256Ctx" where
  "SHA224_Init = prim_Init 64"

definition SHA224_Update :: "h8 alg \<Rightarrow> sha256Ctx \<Rightarrow> byte list \<Rightarrow> int \<times> sha256Ctx" where
  "SHA224_Update = prim_Update 64"

definition SHA224_Final :: "h8 alg \<Rightarrow> sha256Ctx \<Rightarrow> int \<times> byte list \<times> sha256Ctx" where
  "SHA224_Final = prim_Final 64"

definition SHA256_Init :: "h8 alg \<Rightarrow> sha256Ctx \<Rightarrow> sha256Ctx" where
  "SHA256_Init = prim_Init 64"

definition SHA256_Update :: "h8 alg \<Rightarrow> sha256Ctx \<Rightarrow> byte list \<Rightarrow> int \<times> sha256Ctx" where
  "SHA256_Update = prim_Update 64"

definition SHA256_Final :: "h8 alg \<Rightarrow> sha256Ctx \<Rightarrow> int \<times> byte list \<times> sha256Ctx" where
  "SHA256_Final = prim_Final 64"

definition SHA384_Init :: "h8l alg \<Rightarrow> sha512Ctx \<Rightarrow> sha512Ctx" where
  "SHA384_Init = prim_Init 128"

definition SHA384_Update :: "h8l alg \<Rightarrow> sha512Ctx \<Rightarrow> byte list \<Rightarrow> int \<times> sha512Ctx" where
  "SHA384_Update = prim_Update 128"

definition SHA384_Final :: "h8l alg \<Rightarrow> sha512Ctx \<Rightarrow> int \<times> byte list \<times> sha512Ctx" where
  "SHA384_Final = prim_Final 128"

definition SHA512_Init :: "h8l alg \<Rightarrow> sha512Ctx \<Rightarrow> sha512Ctx" where
  "SHA512_Init = prim_Init 128"

definition SHA512_Update :: "h8l alg \<Rightarrow> sha512Ctx \<Rightarrow> byte list \<Rightarrow> int \<times> sha512Ctx" where
  "SHA512_Update = prim_Update 128"

definition SHA512_Final :: "h8l alg \<Rightarrow> sha512Ctx \<Rightarrow> int \<times> byte list \<times> sha512Ctx" where
  "SHA512_Final = prim_Final 128"

section \<open>The streaming adapters\<close>

text \<open>
  A method with a pointer receiver takes the receiver and returns it with its result, as
  the call leaves it. \<open>None\<close> is a panic.
\<close>

subsection \<open>SHA-1\<close>

definition sha1_zero :: sha1Hash where
  "sha1_zero =
     \<lparr>ctx = \<lparr>ctx_h = (0, 0, 0, 0, 0), ctx_nl = 0, ctx_nh = 0,
              ctx_x = replicate 64 0, ctx_nx = 0\<rparr>,
      out = replicate 20 0\<rparr>"

definition sha1_Reset :: "h5 alg \<Rightarrow> sha1Hash \<Rightarrow> sha1Hash" where
  "sha1_Reset A h = h\<lparr>ctx := SHA1_Init A (ctx h)\<rparr>"

definition NewSHA1 :: "h5 alg \<Rightarrow> sha1Hash" where
  "NewSHA1 A = (let h = sha1_zero in sha1_Reset A h)"

definition sha1_Size :: nat where
  "sha1_Size = 20"

definition sha1_BlockSize :: nat where
  "sha1_BlockSize = 64"

definition sha1_Write :: "h5 alg \<Rightarrow> sha1Hash \<Rightarrow> byte list \<Rightarrow> (sha1Hash \<times> nat \<times> goerror) option" where
  "sha1_Write A h p =
     (if length p > 0 then
        (case SHA1_Update A (ctx h) p of
           (ok, c) \<Rightarrow> if ok = 0 then None else Some (h\<lparr>ctx := c\<rparr>, length p, None))
      else Some (h, length p, None))"

definition sha1_WriteString :: "h5 alg \<Rightarrow> sha1Hash \<Rightarrow> gostring \<Rightarrow> (sha1Hash \<times> nat \<times> goerror) option" where
  "sha1_WriteString A h s =
     (if length s > 0 then
        (case SHA1_Update A (ctx h) s of
           (ok, c) \<Rightarrow> if ok = 0 then None else Some (h\<lparr>ctx := c\<rparr>, length s, None))
      else Some (h, length s, None))"

definition sha1_WriteByte :: "h5 alg \<Rightarrow> sha1Hash \<Rightarrow> byte \<Rightarrow> (sha1Hash \<times> goerror) option" where
  "sha1_WriteByte A h c =
     (case SHA1_Update A (ctx h) [c] of
        (ok, c') \<Rightarrow> if ok = 0 then None else Some (h\<lparr>ctx := c'\<rparr>, None))"

text \<open>\<^verbatim>\<open>h := *h0\<close> is a copy: \<^verbatim>\<open>Final\<close> works on it, and the receiver is returned as it was.\<close>

definition sha1_sum :: "h5 alg \<Rightarrow> sha1Hash \<Rightarrow> byte list \<Rightarrow> (sha1Hash \<times> byte list) option" where
  "sha1_sum A h0 dst =
     (let h = h0 in
      case SHA1_Final A (ctx h) of
        (ok, md, c) \<Rightarrow>
          if ok = 0 then None
          else (let h = h\<lparr>ctx := c, out := md\<rparr> in Some (h0, dst @ out h)))"

definition sha1_Sum :: "h5 alg \<Rightarrow> sha1Hash \<Rightarrow> byte list \<Rightarrow> (sha1Hash \<times> byte list) option" where
  "sha1_Sum A h dst = sha1_sum A h dst"

definition sha1Magic :: "byte list" where
  "sha1Magic = [0x73, 0x68, 0x61, 0x01]"

definition sha1MarshaledSize :: nat where
  "sha1MarshaledSize = length sha1Magic + 5 * 4 + 64 + 8"

text \<open>
  The slice \<open>b\<close> is made with length 0 and capacity \<^verbatim>\<open>sha1MarshaledSize\<close>, all zero;
  \<^verbatim>\<open>b[:len(b)+len(d.x)-int(d.nx)]\<close> lengthens it over bytes that were never written.
\<close>

definition sha1_MarshalBinary :: "sha1Hash \<Rightarrow> (byte list \<times> goerror) option" where
  "sha1_MarshalBinary h =
     (let d = ctx h in
      case ctx_h d of (h0, h1, h2, h3, h4) \<Rightarrow> do {
        let b = [];
        let b = b @ sha1Magic;
        b \<leftarrow> appendUint32 b h0;
        b \<leftarrow> appendUint32 b h1;
        b \<leftarrow> appendUint32 b h2;
        b \<leftarrow> appendUint32 b h3;
        b \<leftarrow> appendUint32 b h4;
        v \<leftarrow> slice_to (ctx_x d) (unat (ctx_nx d));
        let b = b @ v;
        let b = b @ replicate (length (ctx_x d) - unat (ctx_nx d)) 0;
        b \<leftarrow> appendUint64 b (drop_bit 3 (ucast (ctx_nl d)) OR push_bit 29 (ucast (ctx_nh d)));
        Some (b, None)
      })"

definition sha1_UnmarshalBinary :: "sha1Hash \<Rightarrow> byte list \<Rightarrow> (sha1Hash \<times> goerror) option" where
  "sha1_UnmarshalBinary h b =
     (if length b < length sha1Magic \<or> take (length sha1Magic) b \<noteq> sha1Magic then
        Some (h, Some ''crypto/sha1: invalid hash state identifier'')
      else if length b \<noteq> sha1MarshaledSize then
        Some (h, Some ''crypto/sha1: invalid hash state size'')
      else do {
        let d = ctx h;
        let b = drop (length sha1Magic) b;
        (b, h0) \<leftarrow> consumeUint32 b;
        (b, h1) \<leftarrow> consumeUint32 b;
        (b, h2) \<leftarrow> consumeUint32 b;
        (b, h3) \<leftarrow> consumeUint32 b;
        (b, h4) \<leftarrow> consumeUint32 b;
        let (xs, k) = copy_bytes (ctx_x d) b;
        let b = drop k b;
        (b, n) \<leftarrow> consumeUint64 b;
        Some (h\<lparr>ctx := d\<lparr>ctx_h := (h0, h1, h2, h3, h4),
                            ctx_x := xs,
                            ctx_nl := ucast (push_bit 3 n),
                            ctx_nh := ucast (drop_bit 29 n),
                            ctx_nx := ucast n mod 64\<rparr>\<rparr>, None)
      })"

subsection \<open>SHA-224\<close>

definition sha224_zero :: sha224Hash where
  "sha224_zero =
     \<lparr>ctx = \<lparr>ctx_h = (0, 0, 0, 0, 0, 0, 0, 0), ctx_nl = 0, ctx_nh = 0,
              ctx_x = replicate 64 0, ctx_nx = 0\<rparr>,
      out = replicate (224 div 8) 0\<rparr>"

definition sha224_Reset :: "h8 alg \<Rightarrow> sha224Hash \<Rightarrow> sha224Hash" where
  "sha224_Reset A h = h\<lparr>ctx := SHA224_Init A (ctx h)\<rparr>"

definition NewSHA224 :: "h8 alg \<Rightarrow> sha224Hash" where
  "NewSHA224 A = (let h = sha224_zero in sha224_Reset A h)"

definition sha224_Size :: nat where
  "sha224_Size = 224 div 8"

definition sha224_BlockSize :: nat where
  "sha224_BlockSize = 64"

definition sha224_Write :: "h8 alg \<Rightarrow> sha224Hash \<Rightarrow> byte list \<Rightarrow> (sha224Hash \<times> nat \<times> goerror) option" where
  "sha224_Write A h p =
     (if length p > 0 then
        (case SHA224_Update A (ctx h) p of
           (ok, c) \<Rightarrow> if ok = 0 then None else Some (h\<lparr>ctx := c\<rparr>, length p, None))
      else Some (h, length p, None))"

definition sha224_sum :: "h8 alg \<Rightarrow> sha224Hash \<Rightarrow> byte list \<Rightarrow> (sha224Hash \<times> byte list) option" where
  "sha224_sum A h0 dst =
     (let h = h0 in
      case SHA224_Final A (ctx h) of
        (ok, md, c) \<Rightarrow>
          if ok = 0 then None
          else (let h = h\<lparr>ctx := c, out := md\<rparr> in Some (h0, dst @ out h)))"

definition sha224_Sum :: "h8 alg \<Rightarrow> sha224Hash \<Rightarrow> byte list \<Rightarrow> (sha224Hash \<times> byte list) option" where
  "sha224_Sum A h dst = sha224_sum A h dst"

subsection \<open>SHA-256\<close>

definition sha256_zero :: sha256Hash where
  "sha256_zero =
     \<lparr>ctx = \<lparr>ctx_h = (0, 0, 0, 0, 0, 0, 0, 0), ctx_nl = 0, ctx_nh = 0,
              ctx_x = replicate 64 0, ctx_nx = 0\<rparr>,
      out = replicate (256 div 8) 0\<rparr>"

definition sha256_Reset :: "h8 alg \<Rightarrow> sha256Hash \<Rightarrow> sha256Hash" where
  "sha256_Reset A h = h\<lparr>ctx := SHA256_Init A (ctx h)\<rparr>"

definition NewSHA256 :: "h8 alg \<Rightarrow> sha256Hash" where
  "NewSHA256 A = (let h = sha256_zero in sha256_Reset A h)"

definition sha256_Size :: nat where
  "sha256_Size = 256 div 8"

definition sha256_BlockSize :: nat where
  "sha256_BlockSize = 64"

definition sha256_Write :: "h8 alg \<Rightarrow> sha256Hash \<Rightarrow> byte list \<Rightarrow> (sha256Hash \<times> nat \<times> goerror) option" where
  "sha256_Write A h p =
     (if length p > 0 then
        (case SHA256_Update A (ctx h) p of
           (ok, c) \<Rightarrow> if ok = 0 then None else Some (h\<lparr>ctx := c\<rparr>, length p, None))
      else Some (h, length p, None))"

definition sha256_WriteString :: "h8 alg \<Rightarrow> sha256Hash \<Rightarrow> gostring \<Rightarrow> (sha256Hash \<times> nat \<times> goerror) option" where
  "sha256_WriteString A h s =
     (if length s > 0 then
        (case SHA256_Update A (ctx h) s of
           (ok, c) \<Rightarrow> if ok = 0 then None else Some (h\<lparr>ctx := c\<rparr>, length s, None))
      else Some (h, length s, None))"

definition sha256_WriteByte :: "h8 alg \<Rightarrow> sha256Hash \<Rightarrow> byte \<Rightarrow> (sha256Hash \<times> goerror) option" where
  "sha256_WriteByte A h c =
     (case SHA256_Update A (ctx h) [c] of
        (ok, c') \<Rightarrow> if ok = 0 then None else Some (h\<lparr>ctx := c'\<rparr>, None))"

definition sha256_sum :: "h8 alg \<Rightarrow> sha256Hash \<Rightarrow> byte list \<Rightarrow> (sha256Hash \<times> byte list) option" where
  "sha256_sum A h0 dst =
     (let h = h0 in
      case SHA256_Final A (ctx h) of
        (ok, md, c) \<Rightarrow>
          if ok = 0 then None
          else (let h = h\<lparr>ctx := c, out := md\<rparr> in Some (h0, dst @ out h)))"

definition sha256_Sum :: "h8 alg \<Rightarrow> sha256Hash \<Rightarrow> byte list \<Rightarrow> (sha256Hash \<times> byte list) option" where
  "sha256_Sum A h dst = sha256_sum A h dst"

definition magic224 :: "byte list" where
  "magic224 = [0x73, 0x68, 0x61, 0x02]"

definition magic256 :: "byte list" where
  "magic256 = [0x73, 0x68, 0x61, 0x03]"

definition marshaledSize256 :: nat where
  "marshaledSize256 = length magic256 + 8 * 4 + 64 + 8"

definition sha224_MarshalBinary :: "sha224Hash \<Rightarrow> (byte list \<times> goerror) option" where
  "sha224_MarshalBinary h =
     (let d = ctx h in
      case ctx_h d of (h0, h1, h2, h3, h4, h5, h6, h7) \<Rightarrow> do {
        let b = [];
        let b = b @ magic224;
        b \<leftarrow> appendUint32 b h0;
        b \<leftarrow> appendUint32 b h1;
        b \<leftarrow> appendUint32 b h2;
        b \<leftarrow> appendUint32 b h3;
        b \<leftarrow> appendUint32 b h4;
        b \<leftarrow> appendUint32 b h5;
        b \<leftarrow> appendUint32 b h6;
        b \<leftarrow> appendUint32 b h7;
        v \<leftarrow> slice_to (ctx_x d) (unat (ctx_nx d));
        let b = b @ v;
        let b = b @ replicate (length (ctx_x d) - unat (ctx_nx d)) 0;
        b \<leftarrow> appendUint64 b (drop_bit 3 (ucast (ctx_nl d)) OR push_bit 29 (ucast (ctx_nh d)));
        Some (b, None)
      })"

definition sha256_MarshalBinary :: "sha256Hash \<Rightarrow> (byte list \<times> goerror) option" where
  "sha256_MarshalBinary h =
     (let d = ctx h in
      case ctx_h d of (h0, h1, h2, h3, h4, h5, h6, h7) \<Rightarrow> do {
        let b = [];
        let b = b @ magic256;
        b \<leftarrow> appendUint32 b h0;
        b \<leftarrow> appendUint32 b h1;
        b \<leftarrow> appendUint32 b h2;
        b \<leftarrow> appendUint32 b h3;
        b \<leftarrow> appendUint32 b h4;
        b \<leftarrow> appendUint32 b h5;
        b \<leftarrow> appendUint32 b h6;
        b \<leftarrow> appendUint32 b h7;
        v \<leftarrow> slice_to (ctx_x d) (unat (ctx_nx d));
        let b = b @ v;
        let b = b @ replicate (length (ctx_x d) - unat (ctx_nx d)) 0;
        b \<leftarrow> appendUint64 b (drop_bit 3 (ucast (ctx_nl d)) OR push_bit 29 (ucast (ctx_nh d)));
        Some (b, None)
      })"

definition sha224_UnmarshalBinary :: "sha224Hash \<Rightarrow> byte list \<Rightarrow> (sha224Hash \<times> goerror) option" where
  "sha224_UnmarshalBinary h b =
     (if length b < length magic224 \<or> take (length magic224) b \<noteq> magic224 then
        Some (h, Some ''crypto/sha256: invalid hash state identifier'')
      else if length b \<noteq> marshaledSize256 then
        Some (h, Some ''crypto/sha256: invalid hash state size'')
      else do {
        let d = ctx h;
        let b = drop (length magic224) b;
        (b, h0) \<leftarrow> consumeUint32 b;
        (b, h1) \<leftarrow> consumeUint32 b;
        (b, h2) \<leftarrow> consumeUint32 b;
        (b, h3) \<leftarrow> consumeUint32 b;
        (b, h4) \<leftarrow> consumeUint32 b;
        (b, h5) \<leftarrow> consumeUint32 b;
        (b, h6) \<leftarrow> consumeUint32 b;
        (b, h7) \<leftarrow> consumeUint32 b;
        let (xs, k) = copy_bytes (ctx_x d) b;
        let b = drop k b;
        (b, n) \<leftarrow> consumeUint64 b;
        Some (h\<lparr>ctx := d\<lparr>ctx_h := (h0, h1, h2, h3, h4, h5, h6, h7),
                            ctx_x := xs,
                            ctx_nl := ucast (push_bit 3 n),
                            ctx_nh := ucast (drop_bit 29 n),
                            ctx_nx := ucast n mod 64\<rparr>\<rparr>, None)
      })"

definition sha256_UnmarshalBinary :: "sha256Hash \<Rightarrow> byte list \<Rightarrow> (sha256Hash \<times> goerror) option" where
  "sha256_UnmarshalBinary h b =
     (if length b < length magic256 \<or> take (length magic256) b \<noteq> magic256 then
        Some (h, Some ''crypto/sha256: invalid hash state identifier'')
      else if length b \<noteq> marshaledSize256 then
        Some (h, Some ''crypto/sha256: invalid hash state size'')
      else do {
        let d = ctx h;
        let b = drop (length magic256) b;
        (b, h0) \<leftarrow> consumeUint32 b;
        (b, h1) \<leftarrow> consumeUint32 b;
        (b, h2) \<leftarrow> consumeUint32 b;
        (b, h3) \<leftarrow> consumeUint32 b;
        (b, h4) \<leftarrow> consumeUint32 b;
        (b, h5) \<leftarrow> consumeUint32 b;
        (b, h6) \<leftarrow> consumeUint32 b;
        (b, h7) \<leftarrow> consumeUint32 b;
        let (xs, k) = copy_bytes (ctx_x d) b;
        let b = drop k b;
        (b, n) \<leftarrow> consumeUint64 b;
        Some (h\<lparr>ctx := d\<lparr>ctx_h := (h0, h1, h2, h3, h4, h5, h6, h7),
                            ctx_x := xs,
                            ctx_nl := ucast (push_bit 3 n),
                            ctx_nh := ucast (drop_bit 29 n),
                            ctx_nx := ucast n mod 64\<rparr>\<rparr>, None)
      })"

subsection \<open>SHA-384\<close>

definition sha384_zero :: sha384Hash where
  "sha384_zero =
     \<lparr>ctx = \<lparr>ctx_h = (0, 0, 0, 0, 0, 0, 0, 0), ctx_nl = 0, ctx_nh = 0,
              ctx_x = replicate 128 0, ctx_nx = 0\<rparr>,
      out = replicate (384 div 8) 0\<rparr>"

definition sha384_Reset :: "h8l alg \<Rightarrow> sha384Hash \<Rightarrow> sha384Hash" where
  "sha384_Reset A h = h\<lparr>ctx := SHA384_Init A (ctx h)\<rparr>"

definition NewSHA384 :: "h8l alg \<Rightarrow> sha384Hash" where
  "NewSHA384 A = (let h = sha384_zero in sha384_Reset A h)"

definition sha384_Size :: nat where
  "sha384_Size = 384 div 8"

definition sha384_BlockSize :: nat where
  "sha384_BlockSize = 128"

definition sha384_Write :: "h8l alg \<Rightarrow> sha384Hash \<Rightarrow> byte list \<Rightarrow> (sha384Hash \<times> nat \<times> goerror) option" where
  "sha384_Write A h p =
     (if length p > 0 then
        (case SHA384_Update A (ctx h) p of
           (ok, c) \<Rightarrow> if ok = 0 then None else Some (h\<lparr>ctx := c\<rparr>, length p, None))
      else Some (h, length p, None))"

definition sha384_WriteString :: "h8l alg \<Rightarrow> sha384Hash \<Rightarrow> gostring \<Rightarrow> (sha384Hash \<times> nat \<times> goerror) option" where
  "sha384_WriteString A h s =
     (if length s > 0 then
        (case SHA384_Update A (ctx h) s of
           (ok, c) \<Rightarrow> if ok = 0 then None else Some (h\<lparr>ctx := c\<rparr>, length s, None))
      else Some (h, length s, None))"

definition sha384_WriteByte :: "h8l alg \<Rightarrow> sha384Hash \<Rightarrow> byte \<Rightarrow> (sha384Hash \<times> goerror) option" where
  "sha384_WriteByte A h c =
     (case SHA384_Update A (ctx h) [c] of
        (ok, c') \<Rightarrow> if ok = 0 then None else Some (h\<lparr>ctx := c'\<rparr>, None))"

definition sha384_sum :: "h8l alg \<Rightarrow> sha384Hash \<Rightarrow> byte list \<Rightarrow> (sha384Hash \<times> byte list) option" where
  "sha384_sum A h0 dst =
     (let h = h0 in
      case SHA384_Final A (ctx h) of
        (ok, md, c) \<Rightarrow>
          if ok = 0 then None
          else (let h = h\<lparr>ctx := c, out := md\<rparr> in Some (h0, dst @ out h)))"

definition sha384_Sum :: "h8l alg \<Rightarrow> sha384Hash \<Rightarrow> byte list \<Rightarrow> (sha384Hash \<times> byte list) option" where
  "sha384_Sum A h dst = sha384_sum A h dst"

subsection \<open>SHA-512\<close>

definition sha512_zero :: sha512Hash where
  "sha512_zero =
     \<lparr>ctx = \<lparr>ctx_h = (0, 0, 0, 0, 0, 0, 0, 0), ctx_nl = 0, ctx_nh = 0,
              ctx_x = replicate 128 0, ctx_nx = 0\<rparr>,
      out = replicate (512 div 8) 0\<rparr>"

definition sha512_Reset :: "h8l alg \<Rightarrow> sha512Hash \<Rightarrow> sha512Hash" where
  "sha512_Reset A h = h\<lparr>ctx := SHA512_Init A (ctx h)\<rparr>"

definition NewSHA512 :: "h8l alg \<Rightarrow> sha512Hash" where
  "NewSHA512 A = (let h = sha512_zero in sha512_Reset A h)"

definition sha512_Size :: nat where
  "sha512_Size = 512 div 8"

definition sha512_BlockSize :: nat where
  "sha512_BlockSize = 128"

definition sha512_Write :: "h8l alg \<Rightarrow> sha512Hash \<Rightarrow> byte list \<Rightarrow> (sha512Hash \<times> nat \<times> goerror) option" where
  "sha512_Write A h p =
     (if length p > 0 then
        (case SHA512_Update A (ctx h) p of
           (ok, c) \<Rightarrow> if ok = 0 then None else Some (h\<lparr>ctx := c\<rparr>, length p, None))
      else Some (h, length p, None))"

definition sha512_WriteString :: "h8l alg \<Rightarrow> sha512Hash \<Rightarrow> gostring \<Rightarrow> (sha512Hash \<times> nat \<times> goerror) option" where
  "sha512_WriteString A h s =
     (if length s > 0 then
        (case SHA512_Update A (ctx h) s of
           (ok, c) \<Rightarrow> if ok = 0 then None else Some (h\<lparr>ctx := c\<rparr>, length s, None))
      else Some (h, length s, None))"

definition sha512_WriteByte :: "h8l alg \<Rightarrow> sha512Hash \<Rightarrow> byte \<Rightarrow> (sha512Hash \<times> goerror) option" where
  "sha512_WriteByte A h c =
     (case SHA512_Update A (ctx h) [c] of
        (ok, c') \<Rightarrow> if ok = 0 then None else Some (h\<lparr>ctx := c'\<rparr>, None))"

definition sha512_sum :: "h8l alg \<Rightarrow> sha512Hash \<Rightarrow> byte list \<Rightarrow> (sha512Hash \<times> byte list) option" where
  "sha512_sum A h0 dst =
     (let h = h0 in
      case SHA512_Final A (ctx h) of
        (ok, md, c) \<Rightarrow>
          if ok = 0 then None
          else (let h = h\<lparr>ctx := c, out := md\<rparr> in Some (h0, dst @ out h)))"

definition sha512_Sum :: "h8l alg \<Rightarrow> sha512Hash \<Rightarrow> byte list \<Rightarrow> (sha512Hash \<times> byte list) option" where
  "sha512_Sum A h dst = sha512_sum A h dst"

definition magic384 :: "byte list" where
  "magic384 = [0x73, 0x68, 0x61, 0x04]"

definition magic512_224 :: "byte list" where
  "magic512_224 = [0x73, 0x68, 0x61, 0x05]"

definition magic512_256 :: "byte list" where
  "magic512_256 = [0x73, 0x68, 0x61, 0x06]"

definition magic512 :: "byte list" where
  "magic512 = [0x73, 0x68, 0x61, 0x07]"

definition marshaledSize512 :: nat where
  "marshaledSize512 = length magic512 + 8 * 8 + 128 + 8"

definition sha384_MarshalBinary :: "sha384Hash \<Rightarrow> (byte list \<times> goerror) option" where
  "sha384_MarshalBinary h =
     (let d = ctx h in
      case ctx_h d of (h0, h1, h2, h3, h4, h5, h6, h7) \<Rightarrow> do {
        let b = [];
        let b = b @ magic384;
        b \<leftarrow> appendUint64 b h0;
        b \<leftarrow> appendUint64 b h1;
        b \<leftarrow> appendUint64 b h2;
        b \<leftarrow> appendUint64 b h3;
        b \<leftarrow> appendUint64 b h4;
        b \<leftarrow> appendUint64 b h5;
        b \<leftarrow> appendUint64 b h6;
        b \<leftarrow> appendUint64 b h7;
        v \<leftarrow> slice_to (ctx_x d) (unat (ctx_nx d));
        let b = b @ v;
        let b = b @ replicate (length (ctx_x d) - unat (ctx_nx d)) 0;
        b \<leftarrow> appendUint64 b (drop_bit 3 (ctx_nl d) OR push_bit 61 (ctx_nh d));
        Some (b, None)
      })"

definition sha512_MarshalBinary :: "sha512Hash \<Rightarrow> (byte list \<times> goerror) option" where
  "sha512_MarshalBinary h =
     (let d = ctx h in
      case ctx_h d of (h0, h1, h2, h3, h4, h5, h6, h7) \<Rightarrow> do {
        let b = [];
        let b = b @ magic512;
        b \<leftarrow> appendUint64 b h0;
        b \<leftarrow> appendUint64 b h1;
        b \<leftarrow> appendUint64 b h2;
        b \<leftarrow> appendUint64 b h3;
        b \<leftarrow> appendUint64 b h4;
        b \<leftarrow> appendUint64 b h5;
        b \<leftarrow> appendUint64 b h6;
        b \<leftarrow> appendUint64 b h7;
        v \<leftarrow> slice_to (ctx_x d) (unat (ctx_nx d));
        let b = b @ v;
        let b = b @ replicate (length (ctx_x d) - unat (ctx_nx d)) 0;
        b \<leftarrow> appendUint64 b (drop_bit 3 (ctx_nl d) OR push_bit 61 (ctx_nh d));
        Some (b, None)
      })"

definition sha384_UnmarshalBinary :: "sha384Hash \<Rightarrow> byte list \<Rightarrow> (sha384Hash \<times> goerror) option" where
  "sha384_UnmarshalBinary h b =
     (if length b < length magic512 then
        Some (h, Some ''crypto/sha512: invalid hash state identifier'')
      else if take (length magic384) b \<noteq> magic384 then
        Some (h, Some ''crypto/sha512: invalid hash state identifier'')
      else if length b \<noteq> marshaledSize512 then
        Some (h, Some ''crypto/sha512: invalid hash state size'')
      else do {
        let d = ctx h;
        let b = drop (length magic512) b;
        (b, h0) \<leftarrow> consumeUint64 b;
        (b, h1) \<leftarrow> consumeUint64 b;
        (b, h2) \<leftarrow> consumeUint64 b;
        (b, h3) \<leftarrow> consumeUint64 b;
        (b, h4) \<leftarrow> consumeUint64 b;
        (b, h5) \<leftarrow> consumeUint64 b;
        (b, h6) \<leftarrow> consumeUint64 b;
        (b, h7) \<leftarrow> consumeUint64 b;
        let (xs, k) = copy_bytes (ctx_x d) b;
        let b = drop k b;
        (b, n) \<leftarrow> consumeUint64 b;
        Some (h\<lparr>ctx := d\<lparr>ctx_h := (h0, h1, h2, h3, h4, h5, h6, h7),
                            ctx_x := xs,
                            ctx_nl := push_bit 3 n,
                            ctx_nh := drop_bit 61 n,
                            ctx_nx := ucast n mod 128\<rparr>\<rparr>, None)
      })"

definition sha512_UnmarshalBinary :: "sha512Hash \<Rightarrow> byte list \<Rightarrow> (sha512Hash \<times> goerror) option" where
  "sha512_UnmarshalBinary h b =
     (if length b < length magic512 then
        Some (h, Some ''crypto/sha512: invalid hash state identifier'')
      else if take (length magic512) b \<noteq> magic512 then
        Some (h, Some ''crypto/sha512: invalid hash state identifier'')
      else if length b \<noteq> marshaledSize512 then
        Some (h, Some ''crypto/sha512: invalid hash state size'')
      else do {
        let d = ctx h;
        let b = drop (length magic512) b;
        (b, h0) \<leftarrow> consumeUint64 b;
        (b, h1) \<leftarrow> consumeUint64 b;
        (b, h2) \<leftarrow> consumeUint64 b;
        (b, h3) \<leftarrow> consumeUint64 b;
        (b, h4) \<leftarrow> consumeUint64 b;
        (b, h5) \<leftarrow> consumeUint64 b;
        (b, h6) \<leftarrow> consumeUint64 b;
        (b, h7) \<leftarrow> consumeUint64 b;
        let (xs, k) = copy_bytes (ctx_x d) b;
        let b = drop k b;
        (b, n) \<leftarrow> consumeUint64 b;
        Some (h\<lparr>ctx := d\<lparr>ctx_h := (h0, h1, h2, h3, h4, h5, h6, h7),
                            ctx_x := xs,
                            ctx_nl := push_bit 3 n,
                            ctx_nh := drop_bit 61 n,
                            ctx_nx := ucast n mod 128\<rparr>\<rparr>, None)
      })"

section \<open>Clients\<close>

text \<open>A sequence of Write calls on one adapter; \<open>W\<close> is the adapter's Write method.\<close>

fun writes :: "('s \<Rightarrow> byte list \<Rightarrow> ('s \<times> nat \<times> goerror) option) \<Rightarrow> 's \<Rightarrow> byte list list \<Rightarrow> 's option" where
  "writes W h [] = Some h"
| "writes W h (p # ps) = (case W h p of None \<Rightarrow> None | Some (h', r) \<Rightarrow> writes W h' ps)"

text \<open>A sequence of Write and Sum calls on one adapter, and what the calls return.\<close>

datatype call = Write_call "byte list" | Sum_call "byte list"

datatype reply = Write_reply nat goerror | Sum_reply "byte list"

fun calls ::
  "('s \<Rightarrow> byte list \<Rightarrow> ('s \<times> nat \<times> goerror) option) \<Rightarrow>
   ('s \<Rightarrow> byte list \<Rightarrow> ('s \<times> byte list) option) \<Rightarrow> 's \<Rightarrow> call list \<Rightarrow> reply list option" where
  "calls W S h [] = Some []"
| "calls W S h (Write_call p # cs) =
     (case W h p of
        None \<Rightarrow> None
      | Some (h', n, e) \<Rightarrow> map_option ((#) (Write_reply n e)) (calls W S h' cs))"
| "calls W S h (Sum_call dst # cs) =
     (case S h dst of
        None \<Rightarrow> None
      | Some (h', md) \<Rightarrow> map_option ((#) (Sum_reply md)) (calls W S h' cs))"

text \<open>
  The five Write methods are one method up to the primitive they call, and so are the
  five sum methods. These are their common shapes, with the block size of the primitive
  as a parameter; they serve to prove a fact once for all five adapters.
\<close>

definition gen_Write ::
  "nat \<Rightarrow> 'h alg \<Rightarrow> ('h, 'w::len word) shaCtx boringHash \<Rightarrow> byte list \<Rightarrow>
   (('h, 'w word) shaCtx boringHash \<times> nat \<times> goerror) option" where
  "gen_Write bs A h p =
     (if length p > 0 then
        (case prim_Update bs A (ctx h) p of
           (ok, c) \<Rightarrow> if ok = 0 then None else Some (h\<lparr>ctx := c\<rparr>, length p, None))
      else Some (h, length p, None))"

definition gen_sum ::
  "nat \<Rightarrow> 'h alg \<Rightarrow> ('h, 'w::len word) shaCtx boringHash \<Rightarrow> byte list \<Rightarrow>
   (('h, 'w word) shaCtx boringHash \<times> byte list) option" where
  "gen_sum bs A h0 dst =
     (let h = h0 in
      case prim_Final bs A (ctx h) of
        (ok, md, c) \<Rightarrow>
          if ok = 0 then None
          else (let h = h\<lparr>ctx := c, out := md\<rparr> in Some (h0, dst @ out h)))"

text \<open>
  The data model's invariant for a block size: the buffer has that size and the count of
  pending bytes is below it.
\<close>

definition ctx_valid :: "nat \<Rightarrow> ('h, 'n) shaCtx \<Rightarrow> bool" where
  "ctx_valid bs c \<longleftrightarrow> length (ctx_x c) = bs \<and> unat (ctx_nx c) < bs"

text \<open>
  Two contexts are state-identical when they agree on the chaining values, the counters,
  the count of pending bytes and the pending bytes themselves. The bytes of the buffer
  behind the pending ones are never read.
\<close>

definition same_state :: "('h, 'n) shaCtx \<Rightarrow> ('h, 'n) shaCtx \<Rightarrow> bool" where
  "same_state c c' \<longleftrightarrow>
     ctx_h c = ctx_h c' \<and> ctx_nl c = ctx_nl c' \<and> ctx_nh c = ctx_nh c' \<and>
     ctx_nx c = ctx_nx c' \<and> length (ctx_x c) = length (ctx_x c') \<and>
     take (unat (ctx_nx c)) (ctx_x c) = take (unat (ctx_nx c')) (ctx_x c')"

text \<open>
  Stand-ins for the external algorithms, to evaluate the definitions on concrete inputs:
  the compression rotates the chaining values and adds the bytes of the block, the
  finalisation lists what it is given (the bit count in 64 or 128 bits).
\<close>

definition demo5 :: "h5 alg" where
  "demo5 =
     \<lparr>alg_iv = (1, 2, 3, 4, 5),
      alg_block = (\<lambda>(a, b, c, d, e) blk. (b, c, d, e, a + sum_list (map ucast blk))),
      alg_final = (\<lambda>(a, b, c, d, e) tl n. be32 a @ be32 e @ tl @ be64 (of_nat n))\<rparr>"

definition demo8 :: "h8 alg" where
  "demo8 =
     \<lparr>alg_iv = (1, 2, 3, 4, 5, 6, 7, 8),
      alg_block = (\<lambda>(a, b, c, d, e, f, g, h) blk. (b, c, d, e, f, g, h, a + sum_list (map ucast blk))),
      alg_final = (\<lambda>(a, b, c, d, e, f, g, h) tl n. be32 a @ be32 h @ tl @ be64 (of_nat n))\<rparr>"

definition demo8l :: "h8l alg" where
  "demo8l =
     \<lparr>alg_iv = (1, 2, 3, 4, 5, 6, 7, 8),
      alg_block = (\<lambda>(a, b, c, d, e, f, g, h) blk. (b, c, d, e, f, g, h, a + sum_list (map ucast blk))),
      alg_final = (\<lambda>(a, b, c, d, e, f, g, h) tl n.
         be64 a @ be64 h @ tl @ be64 (of_nat (n div 2 ^ 64)) @ be64 (of_nat n))\<rparr>"

section \<open>The wire format and example contexts\<close>

text \<open>
  The persisted state layout in the spec's words: the magic tag, the chaining values as
  big-endian words, the valid bytes of the pending buffer followed by zero padding to the
  block size, and the 8-byte encoded total-length field.
\<close>

definition wire_format ::
  "byte list \<Rightarrow> byte list list \<Rightarrow> byte list \<Rightarrow> nat \<Rightarrow> nat \<Rightarrow> uint64 \<Rightarrow> byte list" where
  "wire_format magic hs x n bs field =
     magic @ concat hs @ take n x @ replicate (bs - n) 0 @ be64 field"

text \<open>The chaining values as big-endian words, in the order of the array.\<close>

definition words5 :: "h5 \<Rightarrow> byte list list" where
  "words5 = (\<lambda>(h0, h1, h2, h3, h4). [be32 h0, be32 h1, be32 h2, be32 h3, be32 h4])"

definition words8 :: "h8 \<Rightarrow> byte list list" where
  "words8 = (\<lambda>(h0, h1, h2, h3, h4, h5, h6, h7).
     [be32 h0, be32 h1, be32 h2, be32 h3, be32 h4, be32 h5, be32 h6, be32 h7])"

definition words8l :: "h8l \<Rightarrow> byte list list" where
  "words8l = (\<lambda>(h0, h1, h2, h3, h4, h5, h6, h7).
     [be64 h0, be64 h1, be64 h2, be64 h3, be64 h4, be64 h5, be64 h6, be64 h7])"

text \<open>Example adapters: three bytes pending, 24 bits counted.\<close>

definition ex_sha1 :: sha1Hash where
  "ex_sha1 =
     \<lparr>ctx = \<lparr>ctx_h = (1, 2, 3, 4, 5), ctx_nl = 24, ctx_nh = 0,
              ctx_x = [7, 8, 9] @ replicate 61 0, ctx_nx = 3\<rparr>,
      out = replicate 20 0\<rparr>"

definition ex_sha256 :: sha256Hash where
  "ex_sha256 =
     \<lparr>ctx = \<lparr>ctx_h = (1, 2, 3, 4, 5, 6, 7, 8), ctx_nl = 24, ctx_nh = 0,
              ctx_x = [7, 8, 9] @ replicate 61 0, ctx_nx = 3\<rparr>,
      out = replicate 32 0\<rparr>"

definition ex_sha512 :: sha512Hash where
  "ex_sha512 =
     \<lparr>ctx = \<lparr>ctx_h = (1, 2, 3, 4, 5, 6, 7, 8), ctx_nl = 24, ctx_nh = 0,
              ctx_x = [7, 8, 9] @ replicate 125 0, ctx_nx = 3\<rparr>,
      out = replicate 64 0\<rparr>"

text \<open>
  The counters and the count of pending bytes of a context are those of a stream of \<open>L\<close>
  bytes: the bit counter holds \<open>8 * L\<close> (modulo its two words) and the buffer holds the
  last \<open>L mod bs\<close> bytes.
\<close>

definition counts_for :: "nat \<Rightarrow> nat \<Rightarrow> ('h, 'w::len word) shaCtx \<Rightarrow> bool" where
  "counts_for bs L c \<longleftrightarrow>
     ctx_valid bs c \<and> bitcount c = (8 * L) mod 2 ^ (2 * LENGTH('w)) \<and> unat (ctx_nx c) = L mod bs"

text \<open>The digest that Sum returns after a sequence of writes; \<open>None\<close> when a call panics.\<close>

definition sum_after ::
  "('s \<Rightarrow> byte list \<Rightarrow> ('s \<times> nat \<times> goerror) option) \<Rightarrow>
   ('s \<Rightarrow> byte list \<Rightarrow> ('s \<times> byte list) option) \<Rightarrow> 's \<Rightarrow> byte list list \<Rightarrow> byte list \<Rightarrow>
   byte list option" where
  "sum_after W S h ps dst =
     (case writes W h ps of None \<Rightarrow> None | Some h' \<Rightarrow> map_option snd (S h' dst))"
section \<open>Facts about the byte-order helpers\<close>

lemma length_be32: "length (be32 w) = 4"
  by (simp add: be32_def)

lemma length_be64: "length (be64 w) = 8"
  by (simp add: be64_def)

lemma appendUint32_eq: "appendUint32 b w = Some (b @ be32 w)"
  by (simp add: appendUint32_def putUint32_def be32_def numeral_eq_Suc)

lemma appendUint64_eq: "appendUint64 b w = Some (b @ be64 w)"
  by (simp add: appendUint64_def putUint64_def be64_def numeral_eq_Suc)

lemma consume_be32: "consumeUint32 (be32 w @ r) = Some (r, w)"
  apply (simp add: consumeUint32_def be32_def)
  apply (rule bit_word_eqI)
  subgoal for n
    apply (cases "n < 8"; cases "n < 16"; cases "n < 24")
    apply (simp_all add: bit_simps)
    apply (safe; (simp; fail)?; arith?)+
    done
  done

lemma consume_be64: "consumeUint64 (be64 w @ r) = Some (r, w)"
  apply (simp add: consumeUint64_def be64_def)
  apply (rule bit_word_eqI)
  subgoal for n
    apply (cases "n < 8"; cases "n < 16"; cases "n < 24"; cases "n < 32"; cases "n < 40"; cases "n < 48"; cases "n < 56")
    apply (simp_all add: bit_simps)
    apply (safe; (simp; fail)?; arith?)+
    done
  done


lemma consume_be64_nil: "consumeUint64 (be64 w) = Some ([], w)"
  using consume_be64 [of w "[]"] by simp


section \<open>Facts about the primitives\<close>

lemma absorb_short: "length buf < bs \<Longrightarrow> absorb bs f hv buf = (hv, buf)"
  by (simp add: absorb.simps)

lemma absorb_length: "0 < bs \<Longrightarrow> length (snd (absorb bs f hv buf)) = length buf mod bs"
proof (induction bs f hv buf rule: absorb.induct)
  case (1 bs f hv buf)
  show ?case
  proof (cases "bs \<le> length buf")
    case True
    with 1 have "length (snd (absorb bs f (f hv (take bs buf)) (drop bs buf))) = (length buf - bs) mod bs"
      by simp
    with True 1(2) show ?thesis
      by (subst absorb.simps) (simp add: le_mod_geq)
  next
    case False
    then show ?thesis by (subst absorb.simps) simp
  qed
qed

lemma absorb_append:
  "0 < bs \<Longrightarrow> absorb bs f hv (a @ b) = (case absorb bs f hv a of (hv', r) \<Rightarrow> absorb bs f hv' (r @ b))"
proof (induction bs f hv a rule: absorb.induct)
  case (1 bs f hv a)
  show ?case
  proof (cases "bs \<le> length a")
    case True
    with 1 have IH: "absorb bs f (f hv (take bs a)) (drop bs a @ b) =
        (case absorb bs f (f hv (take bs a)) (drop bs a) of (hv', r) \<Rightarrow> absorb bs f hv' (r @ b))"
      by simp
    have L: "absorb bs f hv (a @ b) = absorb bs f (f hv (take bs a)) (drop bs a @ b)"
      using True 1(2) by (subst absorb.simps) simp
    have R: "absorb bs f hv a = absorb bs f (f hv (take bs a)) (drop bs a)"
      using True 1(2) by (subst absorb.simps) simp
    show ?thesis by (simp only: L R IH)
  next
    case False
    then show ?thesis by (simp add: absorb_short)
  qed
qed

lemma bitcount_split:
  fixes t :: nat
  shows "unat (of_nat (t div 2 ^ LENGTH('w)) :: 'w::len word) * 2 ^ LENGTH('w) + unat (of_nat t :: 'w word)
         = t mod 2 ^ (2 * LENGTH('w))"
proof -
  have "t mod (2 ^ LENGTH('w) * 2 ^ LENGTH('w)) = 2 ^ LENGTH('w) * (t div 2 ^ LENGTH('w) mod 2 ^ LENGTH('w)) + t mod 2 ^ LENGTH('w)"
    by (rule mod_mult2_eq)
  moreover have "(2::nat) ^ (2 * LENGTH('w)) = 2 ^ LENGTH('w) * 2 ^ LENGTH('w)"
    by (simp add: mult_2 power_add)
  ultimately show ?thesis
    by (simp add: unat_of_nat mult.commute)
qed

lemma of_nat_bitcount:
  fixes c :: "('h, 'w::len word) shaCtx"
  shows "(of_nat (bitcount c) :: 'w word) = ctx_nl c"
  by (simp add: bitcount_def)

lemma of_nat_bitcount_div:
  fixes c :: "('h, 'w::len word) shaCtx"
  shows "(of_nat (bitcount c div 2 ^ LENGTH('w)) :: 'w word) = ctx_nh c"
  by (simp add: bitcount_def)

lemma prim_Update_eq:
  fixes c :: "('h, 'w::len word) shaCtx"
  assumes "unat (ctx_nx c) < bs"
  shows "prim_Update bs A c p =
    (1, c\<lparr>ctx_h := fst (absorb bs (alg_block A) (ctx_h c) (take (unat (ctx_nx c)) (ctx_x c) @ p)),
          ctx_nl := of_nat (bitcount c + 8 * length p),
          ctx_nh := of_nat ((bitcount c + 8 * length p) div 2 ^ LENGTH('w)),
          ctx_x := snd (absorb bs (alg_block A) (ctx_h c) (take (unat (ctx_nx c)) (ctx_x c) @ p)) @
                   drop (length (snd (absorb bs (alg_block A) (ctx_h c) (take (unat (ctx_nx c)) (ctx_x c) @ p)))) (ctx_x c),
          ctx_nx := of_nat (length (snd (absorb bs (alg_block A) (ctx_h c) (take (unat (ctx_nx c)) (ctx_x c) @ p))))\<rparr>)"
  using assms by (simp add: prim_Update_def Let_def case_prod_beta)

lemma prim_Update_fail:
  "bs \<le> unat (ctx_nx c) \<Longrightarrow> prim_Update bs A c p = (0, c)"
  by (simp add: prim_Update_def)

lemma bitcount_Update:
  fixes c :: "('h, 'w::len word) shaCtx"
  assumes "unat (ctx_nx c) < bs"
  shows "bitcount (snd (prim_Update bs A c p)) = (bitcount c + 8 * length p) mod 2 ^ (2 * LENGTH('w))"
proof -
  define t where "t = bitcount c + 8 * length p"
  have "ctx_nl (snd (prim_Update bs A c p)) = of_nat t"
    and "ctx_nh (snd (prim_Update bs A c p)) = of_nat (t div 2 ^ LENGTH('w))"
    unfolding t_def prim_Update_eq [OF assms] by simp_all
  then have "bitcount (snd (prim_Update bs A c p)) = t mod 2 ^ (2 * LENGTH('w))"
    unfolding bitcount_def by (simp only: bitcount_split)
  then show ?thesis by (simp only: t_def)
qed

lemma unat_of_nat_block:
  "n < bs \<Longrightarrow> bs \<le> 2 ^ 32 \<Longrightarrow> unat (of_nat n :: uint32) = n"
  by (simp add: unat_of_nat)

lemma nx_Update:
  fixes c :: "('h, 'w::len word) shaCtx"
  assumes "ctx_valid bs c" "bs \<le> 2 ^ 32"
  shows "unat (ctx_nx (snd (prim_Update bs A c p))) = (unat (ctx_nx c) + length p) mod bs"
proof -
  from assms have nx: "unat (ctx_nx c) < bs" and len: "length (ctx_x c) = bs"
    by (simp_all add: ctx_valid_def)
  then have pos: "0 < bs" by simp
  let ?r = "snd (absorb bs (alg_block A) (ctx_h c) (take (unat (ctx_nx c)) (ctx_x c) @ p))"
  have "length ?r = (unat (ctx_nx c) + length p) mod bs"
    using nx len by (simp add: absorb_length [OF pos] min_def)
  moreover from this pos have "length ?r < bs" by simp
  ultimately show ?thesis
    using assms(2) by (simp add: prim_Update_eq [OF nx] unat_of_nat_block)
qed

lemma valid_Update:
  fixes c :: "('h, 'w::len word) shaCtx"
  assumes "ctx_valid bs c" "bs \<le> 2 ^ 32"
  shows "ctx_valid bs (snd (prim_Update bs A c p))"
proof -
  from assms have nx: "unat (ctx_nx c) < bs" and len: "length (ctx_x c) = bs"
    by (simp_all add: ctx_valid_def)
  then have pos: "0 < bs" by simp
  let ?r = "snd (absorb bs (alg_block A) (ctx_h c) (take (unat (ctx_nx c)) (ctx_x c) @ p))"
  have "length ?r < bs"
    using pos by (simp add: absorb_length [OF pos])
  then have "length (ctx_x (snd (prim_Update bs A c p))) = bs"
    using len by (simp add: prim_Update_eq [OF nx])
  moreover have "unat (ctx_nx (snd (prim_Update bs A c p))) < bs"
    using pos by (simp add: nx_Update [OF assms])
  ultimately show ?thesis by (simp add: ctx_valid_def)
qed

lemma Update_nil:
  fixes c :: "('h, 'w::len word) shaCtx"
  assumes "ctx_valid bs c"
  shows "prim_Update bs A c [] = (1, c)"
proof -
  from assms have nx: "unat (ctx_nx c) < bs" and len: "length (ctx_x c) = bs"
    by (simp_all add: ctx_valid_def)
  have "absorb bs (alg_block A) (ctx_h c) (take (unat (ctx_nx c)) (ctx_x c)) =
      (ctx_h c, take (unat (ctx_nx c)) (ctx_x c))"
    using nx len by (simp add: absorb_short)
  then show ?thesis
    using nx len
    by (simp add: prim_Update_eq [OF nx] of_nat_bitcount of_nat_bitcount_div min_def)
qed

lemma same_state_refl: "same_state c c"
  by (simp add: same_state_def)

lemma same_state_sym: "same_state c c' \<Longrightarrow> same_state c' c"
  by (auto simp: same_state_def)

lemma same_state_trans: "same_state c c' \<Longrightarrow> same_state c' c'' \<Longrightarrow> same_state c c''"
  by (auto simp: same_state_def)

lemma same_state_valid: "same_state c c' \<Longrightarrow> ctx_valid bs c \<Longrightarrow> ctx_valid bs c'"
  by (simp add: same_state_def ctx_valid_def)

lemma same_state_bitcount:
  fixes c :: "('h, 'w::len word) shaCtx"
  shows "same_state c c' \<Longrightarrow> bitcount c = bitcount c'"
  by (simp add: same_state_def bitcount_def)

lemma same_state_Update:
  fixes c :: "('h, 'w::len word) shaCtx"
  assumes "same_state c c'" "ctx_valid bs c" "bs \<le> 2 ^ 32"
  shows "fst (prim_Update bs A c p) = fst (prim_Update bs A c' p) \<and>
         same_state (snd (prim_Update bs A c p)) (snd (prim_Update bs A c' p))"
proof -
  from assms have nx: "unat (ctx_nx c) < bs" and len: "length (ctx_x c) = bs"
    by (simp_all add: ctx_valid_def)
  then have pos: "0 < bs" by simp
  from assms(1) nx have nx': "unat (ctx_nx c') < bs" by (simp add: same_state_def)
  let ?r = "snd (absorb bs (alg_block A) (ctx_h c) (take (unat (ctx_nx c)) (ctx_x c) @ p))"
  have r: "length ?r < bs"
    using pos by (simp add: absorb_length [OF pos])
  then have u: "unat (of_nat (length ?r) :: uint32) = length ?r"
    using assms(3) by (rule unat_of_nat_block)
  from assms(1) have eq: "ctx_h c' = ctx_h c" "ctx_nx c' = ctx_nx c"
      "take (unat (ctx_nx c)) (ctx_x c') = take (unat (ctx_nx c)) (ctx_x c)"
      "length (ctx_x c') = length (ctx_x c)" "bitcount c' = bitcount c"
    by (auto simp: same_state_def bitcount_def)
  show ?thesis
    using u r len
    by (simp add: prim_Update_eq [OF nx] prim_Update_eq [OF nx'] eq same_state_def)
qed

lemma counters_of_bitcount:
  fixes c c' :: "('h, 'w::len word) shaCtx"
  assumes "bitcount c = bitcount c'"
  shows "ctx_nl c = ctx_nl c'" and "ctx_nh c = ctx_nh c'"
  using of_nat_bitcount [of c] of_nat_bitcount [of c']
    of_nat_bitcount_div [of c] of_nat_bitcount_div [of c'] assms
  by simp_all

lemma pending_Update:
  fixes c :: "('h, 'w::len word) shaCtx"
  assumes "ctx_valid bs c" "bs \<le> 2 ^ 32"
  shows "(ctx_h (snd (prim_Update bs A c p)),
          take (unat (ctx_nx (snd (prim_Update bs A c p)))) (ctx_x (snd (prim_Update bs A c p)))) =
         absorb bs (alg_block A) (ctx_h c) (take (unat (ctx_nx c)) (ctx_x c) @ p)"
proof -
  from assms have nx: "unat (ctx_nx c) < bs" and len: "length (ctx_x c) = bs"
    by (simp_all add: ctx_valid_def)
  then have pos: "0 < bs" by simp
  let ?r = "snd (absorb bs (alg_block A) (ctx_h c) (take (unat (ctx_nx c)) (ctx_x c) @ p))"
  have r: "length ?r < bs"
    using pos by (simp add: absorb_length [OF pos])
  then have u: "unat (of_nat (length ?r) :: uint32) = length ?r"
    using assms(2) by (rule unat_of_nat_block)
  show ?thesis
    using u by (simp add: prim_Update_eq [OF nx] prod_eq_iff)
qed

lemma Update_append:
  fixes c :: "('h, 'w::len word) shaCtx"
  assumes v: "ctx_valid bs c" and bs: "bs \<le> 2 ^ 32"
  shows "same_state (snd (prim_Update bs A (snd (prim_Update bs A c p)) q))
                    (snd (prim_Update bs A c (p @ q)))"
proof -
  let ?c1 = "snd (prim_Update bs A c p)"
  let ?c2 = "snd (prim_Update bs A ?c1 q)"
  let ?c3 = "snd (prim_Update bs A c (p @ q))"
  from v have nx: "unat (ctx_nx c) < bs" and pos: "0 < bs"
    by (auto simp: ctx_valid_def)
  have v1: "ctx_valid bs ?c1" using v bs by (rule valid_Update)
  then have nx1: "unat (ctx_nx ?c1) < bs" by (simp add: ctx_valid_def)
  have v2: "ctx_valid bs ?c2" using v1 bs by (rule valid_Update)
  have v3: "ctx_valid bs ?c3" using v bs by (rule valid_Update)
  have "bitcount ?c2 = (bitcount ?c1 + 8 * length q) mod 2 ^ (2 * LENGTH('w))"
    by (rule bitcount_Update [OF nx1])
  also have "\<dots> = ((bitcount c + 8 * length p) mod 2 ^ (2 * LENGTH('w)) + 8 * length q) mod 2 ^ (2 * LENGTH('w))"
    by (simp only: bitcount_Update [OF nx])
  also have "\<dots> = (bitcount c + 8 * length (p @ q)) mod 2 ^ (2 * LENGTH('w))"
    by (simp add: mod_add_left_eq add.assoc)
  also have "\<dots> = bitcount ?c3"
    by (simp only: bitcount_Update [OF nx])
  finally have bc: "bitcount ?c2 = bitcount ?c3" .
  have "(ctx_h ?c2, take (unat (ctx_nx ?c2)) (ctx_x ?c2)) =
        absorb bs (alg_block A) (ctx_h ?c1) (take (unat (ctx_nx ?c1)) (ctx_x ?c1) @ q)"
    using v1 bs by (rule pending_Update)
  also have "\<dots> = absorb bs (alg_block A) (ctx_h c) ((take (unat (ctx_nx c)) (ctx_x c) @ p) @ q)"
    using pending_Update [OF v bs, of A p, symmetric]
    by (simp only: absorb_append [OF pos, of _ _ "take (unat (ctx_nx c)) (ctx_x c) @ p" q]) simp
  also have "\<dots> = (ctx_h ?c3, take (unat (ctx_nx ?c3)) (ctx_x ?c3))"
    using pending_Update [OF v bs, of A "p @ q"] by simp
  finally have pend: "ctx_h ?c2 = ctx_h ?c3"
      "take (unat (ctx_nx ?c2)) (ctx_x ?c2) = take (unat (ctx_nx ?c3)) (ctx_x ?c3)"
    by simp_all
  have "unat (ctx_nx ?c2) = unat (ctx_nx ?c3)"
    by (simp add: nx_Update [OF v1 bs] nx_Update [OF v bs] mod_add_left_eq add.assoc)
  then have nxe: "ctx_nx ?c2 = ctx_nx ?c3" by (simp only: word_unat_eq_iff)
  have "length (ctx_x ?c2) = length (ctx_x ?c3)"
    using v2 v3 by (simp add: ctx_valid_def)
  then show ?thesis
    using pend nxe counters_of_bitcount [OF bc] by (simp add: same_state_def)
qed

section \<open>Facts about sequences of writes\<close>

lemma gen_Write_eq:
  fixes h :: "('h, 'w::len word) shaCtx boringHash"
  assumes "ctx_valid bs (ctx h)"
  shows "gen_Write bs A h p = Some (h\<lparr>ctx := snd (prim_Update bs A (ctx h) p)\<rparr>, length p, None)"
proof (cases "p = []")
  case True
  then show ?thesis by (simp add: gen_Write_def Update_nil [OF assms])
next
  case False
  from assms have "unat (ctx_nx (ctx h)) < bs" by (simp add: ctx_valid_def)
  with False show ?thesis by (simp add: gen_Write_def prim_Update_eq)
qed

lemma writes_gen:
  fixes h :: "('h, 'w::len word) shaCtx boringHash"
  assumes "ctx_valid bs (ctx h)" "bs \<le> 2 ^ 32"
  shows "\<exists>h'. writes (gen_Write bs A) h ps = Some h' \<and> out h' = out h \<and>
           same_state (ctx h') (snd (prim_Update bs A (ctx h) (concat ps)))"
  using assms(1)
proof (induction ps arbitrary: h)
  case Nil
  then show ?case by (simp add: Update_nil same_state_refl)
next
  case (Cons p ps)
  let ?h1 = "h\<lparr>ctx := snd (prim_Update bs A (ctx h) p)\<rparr>"
  have v1: "ctx_valid bs (ctx ?h1)"
    using valid_Update [OF Cons.prems assms(2)] by simp
  from Cons.IH [OF v1] obtain h' where h': "writes (gen_Write bs A) ?h1 ps = Some h'"
    "out h' = out ?h1"
    "same_state (ctx h') (snd (prim_Update bs A (ctx ?h1) (concat ps)))"
    by blast
  have "same_state (snd (prim_Update bs A (ctx ?h1) (concat ps)))
          (snd (prim_Update bs A (ctx h) (p @ concat ps)))"
    using Update_append [OF Cons.prems assms(2)] by simp
  with h'(3) have "same_state (ctx h') (snd (prim_Update bs A (ctx h) (concat (p # ps))))"
    by (simp add: same_state_trans)
  with h'(1,2) show ?case
    by (simp add: gen_Write_eq [OF Cons.prems])
qed

lemma valid_Init: "ctx_valid bs (prim_Init bs A c) \<longleftrightarrow> 0 < bs"
  by (simp add: ctx_valid_def prim_Init_def)

lemma bitcount_Init: "bitcount (prim_Init bs A c) = 0"
  by (simp add: bitcount_def prim_Init_def)

lemma nx_Init: "ctx_nx (prim_Init bs A c) = 0"
  by (simp add: prim_Init_def)

text \<open>What a context reached from Init by writes holds.\<close>

lemma reached_gen:
  fixes h :: "('h, 'w::len word) shaCtx boringHash"
  assumes "ctx h = prim_Init bs A c0" "0 < bs" "bs \<le> 2 ^ 32"
    and "writes (gen_Write bs A) h ps = Some h'"
  shows "ctx_valid bs (ctx h')"
    and "bitcount (ctx h') = (8 * length (concat ps)) mod 2 ^ (2 * LENGTH('w))"
    and "unat (ctx_nx (ctx h')) = length (concat ps) mod bs"
    and "same_state (ctx h') (snd (prim_Update bs A (ctx h) (concat ps)))"
proof -
  have v: "ctx_valid bs (ctx h)" using assms(1,2) by (simp add: valid_Init)
  from writes_gen [OF v assms(3), of A ps] assms(4)
  have s: "same_state (ctx h') (snd (prim_Update bs A (ctx h) (concat ps)))" by simp
  then show "same_state (ctx h') (snd (prim_Update bs A (ctx h) (concat ps)))" .
  have vU: "ctx_valid bs (snd (prim_Update bs A (ctx h) (concat ps)))"
    using v assms(3) by (rule valid_Update)
  with s show "ctx_valid bs (ctx h')"
    using same_state_valid same_state_sym by blast
  from v have nx: "unat (ctx_nx (ctx h)) < bs" by (simp add: ctx_valid_def)
  show "bitcount (ctx h') = (8 * length (concat ps)) mod 2 ^ (2 * LENGTH('w))"
    using same_state_bitcount [OF s] bitcount_Update [OF nx, of A "concat ps"]
    by (simp add: assms(1) bitcount_Init)
  show "unat (ctx_nx (ctx h')) = length (concat ps) mod bs"
    using s nx_Update [OF v assms(3), of A "concat ps"]
    by (simp add: same_state_def assms(1) nx_Init)
qed

section \<open>Facts about the packed length field\<close>

lemma low_bits_zero:
  fixes w :: "'a::len word"
  assumes "8 dvd unat w" "i < 3"
  shows "\<not> bit w i"
proof -
  from assms(1) obtain k where k: "unat w = 8 * k" by (auto simp: dvd_def)
  have "bit (unat w) i \<longleftrightarrow> bit w i" by (simp add: bit_simps)
  moreover have "\<not> bit (8 * k :: nat) i"
    using assms(2) bit_push_bit_iff [of 3 k i] by (simp add: push_bit_eq_mult mult.commute)
  ultimately show ?thesis using k by simp
qed

lemma unpack32_nl:
  fixes nl nh :: uint32
  assumes "8 dvd unat nl"
  shows "(ucast (push_bit 3 (drop_bit 3 (ucast nl) OR push_bit 29 (ucast nh) :: uint64)) :: uint32) = nl"
  apply (rule bit_word_eqI)
  subgoal for n
    using low_bits_zero [OF assms, of n]
    by (cases "n < 3") (auto simp: bit_simps)
  done

lemma unpack32_nh:
  fixes nl nh :: uint32
  shows "(ucast (drop_bit 29 (drop_bit 3 (ucast nl) OR push_bit 29 (ucast nh) :: uint64)) :: uint32) = nh"
  apply (rule bit_word_eqI)
  subgoal for n
    by (auto simp: bit_simps dest: bit_imp_le_length)
  done

lemma unpack32_nx:
  fixes nl nh :: uint32
  shows "unat ((ucast (drop_bit 3 (ucast nl) OR push_bit 29 (ucast nh) :: uint64) :: uint32) mod 64) = unat nl div 8 mod 64"
proof -
  have "(ucast (drop_bit 3 (ucast nl) OR push_bit 29 (ucast nh) :: uint64) :: uint32) mod 64
      = take_bit 6 (drop_bit 3 nl)"
    apply (simp only: take_bit_eq_mod [where n = 6, symmetric, simplified])
    apply (rule bit_word_eqI)
    subgoal for n
      by (auto simp: bit_simps)
    done
  then show ?thesis
    by (simp add: take_bit_eq_mod drop_bit_eq_div unat_div unat_mod)
qed

lemma high_bits_zero:
  fixes w :: "'a::len word"
  assumes "unat w < 2 ^ k" "k \<le> i"
  shows "\<not> bit w i"
proof -
  have "(2::nat) ^ k \<le> 2 ^ i"
    using assms(2) by simp
  with assms(1) have "unat w < 2 ^ i"
    by (rule less_le_trans)
  then have "unat w div 2 ^ i = 0" by simp
  then have "\<not> bit (unat w) i" by (simp add: bit_iff_odd)
  then show ?thesis by (simp add: bit_simps)
qed

lemma unpack64_nl:
  fixes nl nh :: uint64
  assumes "8 dvd unat nl"
  shows "push_bit 3 (drop_bit 3 nl OR push_bit 61 nh) = nl"
  apply (rule bit_word_eqI)
  subgoal for n
    using low_bits_zero [OF assms, of n]
    by (cases "n < 3") (auto simp: bit_simps)
  done

lemma unpack64_nh:
  fixes nl nh :: uint64
  assumes "unat nh < 8"
  shows "drop_bit 61 (drop_bit 3 nl OR push_bit 61 nh) = nh"
  apply (rule bit_word_eqI)
  subgoal for n
    using high_bits_zero [of nh 3 n] assms
    by (cases "n < 3") (auto simp: bit_simps dest: bit_imp_le_length)
  done

lemma unpack64_nh_gen:
  fixes nl nh :: uint64
  shows "drop_bit 61 (drop_bit 3 nl OR push_bit 61 nh) = take_bit 3 nh"
  apply (rule bit_word_eqI)
  subgoal for n
    by (cases "n < 3") (auto simp: bit_simps dest: bit_imp_le_length)
  done

lemma unpack64_nx:
  fixes nl nh :: uint64
  shows "unat ((ucast (drop_bit 3 nl OR push_bit 61 nh) :: uint32) mod 128) = unat nl div 8 mod 128"
proof -
  have "(ucast (drop_bit 3 nl OR push_bit 61 nh) :: uint32) mod 128
      = ucast (take_bit 7 (drop_bit 3 nl))"
    apply (simp only: take_bit_eq_mod [where n = 7, symmetric, simplified])
    apply (rule bit_word_eqI)
    subgoal for n
      by (auto simp: bit_simps)
    done
  moreover have "unat (ucast (take_bit 7 (drop_bit 3 nl)) :: uint32) = unat nl div 8 mod 128"
  proof -
    have "unat nl div 8 mod 128 < 2 ^ 32"
      by (rule less_trans [of _ 128]) simp_all
    then show ?thesis
      by (simp add: unsigned_ucast_eq take_bit_eq_mod drop_bit_eq_div unat_div unat_mod)
  qed
  ultimately show ?thesis
    by simp
qed

section \<open>Facts about the codec\<close>

lemma length_sha1Magic: "length sha1Magic = 4"
  by (simp add: sha1Magic_def)

lemma length_magic224: "length magic224 = 4"
  by (simp add: magic224_def)

lemma length_magic256: "length magic256 = 4"
  by (simp add: magic256_def)

lemma length_magic384: "length magic384 = 4"
  by (simp add: magic384_def)

lemma length_magic512: "length magic512 = 4"
  by (simp add: magic512_def)

lemma sha1_Marshal_layout:
  assumes "unat (ctx_nx (ctx h)) \<le> length (ctx_x (ctx h))"
    and "ctx_h (ctx h) = (h0, h1, h2, h3, h4)"
  shows "sha1_MarshalBinary h =
    Some (sha1Magic @ be32 h0 @ be32 h1 @ be32 h2 @ be32 h3 @ be32 h4 @
          take (unat (ctx_nx (ctx h))) (ctx_x (ctx h)) @
          replicate (length (ctx_x (ctx h)) - unat (ctx_nx (ctx h))) 0 @
          be64 (drop_bit 3 (ucast (ctx_nl (ctx h))) OR push_bit 29 (ucast (ctx_nh (ctx h)))), None)"
  using assms
  by (simp add: sha1_MarshalBinary_def appendUint32_eq appendUint64_eq slice_to_def Let_def)

lemma sha1_Marshal_panic:
  assumes "length (ctx_x (ctx h)) < unat (ctx_nx (ctx h))"
  shows "sha1_MarshalBinary h = None"
  using assms
  by (simp add: sha1_MarshalBinary_def appendUint32_eq appendUint64_eq slice_to_def Let_def
      split: prod.splits)

lemma sha1_Unmarshal_errors:
  assumes "length (ctx_x (ctx h)) = 64"
  shows "map_option snd (sha1_UnmarshalBinary h b) =
     Some (if length b < 4 \<or> take 4 b \<noteq> sha1Magic
           then Some ''crypto/sha1: invalid hash state identifier''
           else if length b \<noteq> sha1MarshaledSize then Some ''crypto/sha1: invalid hash state size''
           else None)"
  using assms
  by (simp add: sha1_UnmarshalBinary_def sha1MarshaledSize_def length_sha1Magic
      consumeUint32_def consumeUint64_def copy_bytes_def Let_def)

lemma sha1_Unmarshal_frame:
  assumes "sha1_UnmarshalBinary h b = Some (h', Some e)"
  shows "h' = h"
proof (cases "length b < 4 \<or> take 4 b \<noteq> sha1Magic")
  case True
  with assms show ?thesis
    by (auto simp: sha1_UnmarshalBinary_def length_sha1Magic split: if_splits)
next
  case False
  note magic_ok = this
  show ?thesis
  proof (cases "length b = 96")
    case True
    with magic_ok assms show ?thesis
      by (simp add: sha1_UnmarshalBinary_def sha1MarshaledSize_def length_sha1Magic consumeUint32_def
          consumeUint64_def copy_bytes_def Let_def split: if_splits prod.splits)
  next
    case False
    with magic_ok assms show ?thesis
      by (simp add: sha1_UnmarshalBinary_def sha1MarshaledSize_def length_sha1Magic)
  qed
qed

lemma sha1_Unmarshal_layout:
  assumes "length (ctx_x (ctx g)) = 64" "length xs = 64"
  shows "sha1_UnmarshalBinary g (sha1Magic @ be32 a0 @ be32 a1 @ be32 a2 @ be32 a3 @ be32 a4 @ xs @ be64 n) =
     Some (g\<lparr>ctx := (ctx g)\<lparr>ctx_h := (a0, a1, a2, a3, a4), ctx_x := xs,
              ctx_nl := ucast (push_bit 3 n), ctx_nh := ucast (drop_bit 29 n), ctx_nx := ucast n mod 64\<rparr>\<rparr>, None)"
  using assms
  by (simp add: sha1_UnmarshalBinary_def sha1MarshaledSize_def length_sha1Magic length_be32 length_be64
      consume_be32 consume_be64 consume_be64_nil copy_bytes_def Let_def)

lemma sha224_Marshal_layout:
  assumes "unat (ctx_nx (ctx h)) \<le> length (ctx_x (ctx h))"
    and "ctx_h (ctx h) = (h0, h1, h2, h3, h4, h5, h6, h7)"
  shows "sha224_MarshalBinary h =
    Some (magic224 @ be32 h0 @ be32 h1 @ be32 h2 @ be32 h3 @ be32 h4 @ be32 h5 @ be32 h6 @ be32 h7 @
          take (unat (ctx_nx (ctx h))) (ctx_x (ctx h)) @
          replicate (length (ctx_x (ctx h)) - unat (ctx_nx (ctx h))) 0 @
          be64 (drop_bit 3 (ucast (ctx_nl (ctx h))) OR push_bit 29 (ucast (ctx_nh (ctx h)))), None)"
  using assms
  by (simp add: sha224_MarshalBinary_def appendUint32_eq appendUint64_eq slice_to_def Let_def)

lemma sha224_Marshal_panic:
  assumes "length (ctx_x (ctx h)) < unat (ctx_nx (ctx h))"
  shows "sha224_MarshalBinary h = None"
  using assms
  by (simp add: sha224_MarshalBinary_def appendUint32_eq appendUint64_eq slice_to_def Let_def
      split: prod.splits)

lemma sha224_Unmarshal_errors:
  assumes "length (ctx_x (ctx h)) = 64"
  shows "map_option snd (sha224_UnmarshalBinary h b) =
     Some (if length b < 4 \<or> take 4 b \<noteq> magic224
           then Some ''crypto/sha256: invalid hash state identifier''
           else if length b \<noteq> marshaledSize256 then Some ''crypto/sha256: invalid hash state size''
           else None)"
  using assms
  by (simp add: sha224_UnmarshalBinary_def marshaledSize256_def length_magic224 length_magic256
      consumeUint32_def consumeUint64_def copy_bytes_def Let_def)

lemma sha224_Unmarshal_frame:
  assumes "sha224_UnmarshalBinary h b = Some (h', Some e)"
  shows "h' = h"
proof (cases "length b < 4 \<or> take 4 b \<noteq> magic224")
  case True
  with assms show ?thesis
    by (auto simp: sha224_UnmarshalBinary_def length_magic224 length_magic256 split: if_splits)
next
  case False
  note magic_ok = this
  show ?thesis
  proof (cases "length b = 108")
    case True
    with magic_ok assms show ?thesis
      by (simp add: sha224_UnmarshalBinary_def marshaledSize256_def length_magic224 length_magic256 consumeUint32_def
          consumeUint64_def copy_bytes_def Let_def split: if_splits prod.splits)
  next
    case False
    with magic_ok assms show ?thesis
      by (simp add: sha224_UnmarshalBinary_def marshaledSize256_def length_magic224 length_magic256)
  qed
qed

lemma sha224_Unmarshal_layout:
  assumes "length (ctx_x (ctx g)) = 64" "length xs = 64"
  shows "sha224_UnmarshalBinary g (magic224 @ be32 a0 @ be32 a1 @ be32 a2 @ be32 a3 @ be32 a4 @ be32 a5 @ be32 a6 @ be32 a7 @ xs @ be64 n) =
     Some (g\<lparr>ctx := (ctx g)\<lparr>ctx_h := (a0, a1, a2, a3, a4, a5, a6, a7), ctx_x := xs,
              ctx_nl := ucast (push_bit 3 n), ctx_nh := ucast (drop_bit 29 n), ctx_nx := ucast n mod 64\<rparr>\<rparr>, None)"
  using assms
  by (simp add: sha224_UnmarshalBinary_def marshaledSize256_def length_magic224 length_magic256 length_be32 length_be64
      consume_be32 consume_be64 consume_be64_nil copy_bytes_def Let_def)

lemma sha256_Marshal_layout:
  assumes "unat (ctx_nx (ctx h)) \<le> length (ctx_x (ctx h))"
    and "ctx_h (ctx h) = (h0, h1, h2, h3, h4, h5, h6, h7)"
  shows "sha256_MarshalBinary h =
    Some (magic256 @ be32 h0 @ be32 h1 @ be32 h2 @ be32 h3 @ be32 h4 @ be32 h5 @ be32 h6 @ be32 h7 @
          take (unat (ctx_nx (ctx h))) (ctx_x (ctx h)) @
          replicate (length (ctx_x (ctx h)) - unat (ctx_nx (ctx h))) 0 @
          be64 (drop_bit 3 (ucast (ctx_nl (ctx h))) OR push_bit 29 (ucast (ctx_nh (ctx h)))), None)"
  using assms
  by (simp add: sha256_MarshalBinary_def appendUint32_eq appendUint64_eq slice_to_def Let_def)

lemma sha256_Marshal_panic:
  assumes "length (ctx_x (ctx h)) < unat (ctx_nx (ctx h))"
  shows "sha256_MarshalBinary h = None"
  using assms
  by (simp add: sha256_MarshalBinary_def appendUint32_eq appendUint64_eq slice_to_def Let_def
      split: prod.splits)

lemma sha256_Unmarshal_errors:
  assumes "length (ctx_x (ctx h)) = 64"
  shows "map_option snd (sha256_UnmarshalBinary h b) =
     Some (if length b < 4 \<or> take 4 b \<noteq> magic256
           then Some ''crypto/sha256: invalid hash state identifier''
           else if length b \<noteq> marshaledSize256 then Some ''crypto/sha256: invalid hash state size''
           else None)"
  using assms
  by (simp add: sha256_UnmarshalBinary_def marshaledSize256_def length_magic256
      consumeUint32_def consumeUint64_def copy_bytes_def Let_def)

lemma sha256_Unmarshal_frame:
  assumes "sha256_UnmarshalBinary h b = Some (h', Some e)"
  shows "h' = h"
proof (cases "length b < 4 \<or> take 4 b \<noteq> magic256")
  case True
  with assms show ?thesis
    by (auto simp: sha256_UnmarshalBinary_def length_magic256 split: if_splits)
next
  case False
  note magic_ok = this
  show ?thesis
  proof (cases "length b = 108")
    case True
    with magic_ok assms show ?thesis
      by (simp add: sha256_UnmarshalBinary_def marshaledSize256_def length_magic256 consumeUint32_def
          consumeUint64_def copy_bytes_def Let_def split: if_splits prod.splits)
  next
    case False
    with magic_ok assms show ?thesis
      by (simp add: sha256_UnmarshalBinary_def marshaledSize256_def length_magic256)
  qed
qed

lemma sha256_Unmarshal_layout:
  assumes "length (ctx_x (ctx g)) = 64" "length xs = 64"
  shows "sha256_UnmarshalBinary g (magic256 @ be32 a0 @ be32 a1 @ be32 a2 @ be32 a3 @ be32 a4 @ be32 a5 @ be32 a6 @ be32 a7 @ xs @ be64 n) =
     Some (g\<lparr>ctx := (ctx g)\<lparr>ctx_h := (a0, a1, a2, a3, a4, a5, a6, a7), ctx_x := xs,
              ctx_nl := ucast (push_bit 3 n), ctx_nh := ucast (drop_bit 29 n), ctx_nx := ucast n mod 64\<rparr>\<rparr>, None)"
  using assms
  by (simp add: sha256_UnmarshalBinary_def marshaledSize256_def length_magic256 length_be32 length_be64
      consume_be32 consume_be64 consume_be64_nil copy_bytes_def Let_def)

lemma sha384_Marshal_layout:
  assumes "unat (ctx_nx (ctx h)) \<le> length (ctx_x (ctx h))"
    and "ctx_h (ctx h) = (h0, h1, h2, h3, h4, h5, h6, h7)"
  shows "sha384_MarshalBinary h =
    Some (magic384 @ be64 h0 @ be64 h1 @ be64 h2 @ be64 h3 @ be64 h4 @ be64 h5 @ be64 h6 @ be64 h7 @
          take (unat (ctx_nx (ctx h))) (ctx_x (ctx h)) @
          replicate (length (ctx_x (ctx h)) - unat (ctx_nx (ctx h))) 0 @
          be64 (drop_bit 3 (ctx_nl (ctx h)) OR push_bit 61 (ctx_nh (ctx h))), None)"
  using assms
  by (simp add: sha384_MarshalBinary_def appendUint32_eq appendUint64_eq slice_to_def Let_def)

lemma sha384_Marshal_panic:
  assumes "length (ctx_x (ctx h)) < unat (ctx_nx (ctx h))"
  shows "sha384_MarshalBinary h = None"
  using assms
  by (simp add: sha384_MarshalBinary_def appendUint32_eq appendUint64_eq slice_to_def Let_def
      split: prod.splits)

lemma sha384_Unmarshal_errors:
  assumes "length (ctx_x (ctx h)) = 128"
  shows "map_option snd (sha384_UnmarshalBinary h b) =
     Some (if length b < 4 \<or> take 4 b \<noteq> magic384
           then Some ''crypto/sha512: invalid hash state identifier''
           else if length b \<noteq> marshaledSize512 then Some ''crypto/sha512: invalid hash state size''
           else None)"
  using assms
  by (simp add: sha384_UnmarshalBinary_def marshaledSize512_def length_magic384 length_magic512
      consumeUint32_def consumeUint64_def copy_bytes_def Let_def)

lemma sha384_Unmarshal_frame:
  assumes "sha384_UnmarshalBinary h b = Some (h', Some e)"
  shows "h' = h"
proof (cases "length b < 4 \<or> take 4 b \<noteq> magic384")
  case True
  with assms show ?thesis
    by (auto simp: sha384_UnmarshalBinary_def length_magic384 length_magic512 split: if_splits)
next
  case False
  note magic_ok = this
  show ?thesis
  proof (cases "length b = 204")
    case True
    with magic_ok assms show ?thesis
      by (simp add: sha384_UnmarshalBinary_def marshaledSize512_def length_magic384 length_magic512 consumeUint32_def
          consumeUint64_def copy_bytes_def Let_def split: if_splits prod.splits)
  next
    case False
    with magic_ok assms show ?thesis
      by (simp add: sha384_UnmarshalBinary_def marshaledSize512_def length_magic384 length_magic512)
  qed
qed

lemma sha384_Unmarshal_layout:
  assumes "length (ctx_x (ctx g)) = 128" "length xs = 128"
  shows "sha384_UnmarshalBinary g (magic384 @ be64 a0 @ be64 a1 @ be64 a2 @ be64 a3 @ be64 a4 @ be64 a5 @ be64 a6 @ be64 a7 @ xs @ be64 n) =
     Some (g\<lparr>ctx := (ctx g)\<lparr>ctx_h := (a0, a1, a2, a3, a4, a5, a6, a7), ctx_x := xs,
              ctx_nl := push_bit 3 n, ctx_nh := drop_bit 61 n, ctx_nx := ucast n mod 128\<rparr>\<rparr>, None)"
  using assms
  by (simp add: sha384_UnmarshalBinary_def marshaledSize512_def length_magic384 length_magic512 length_be32 length_be64
      consume_be32 consume_be64 consume_be64_nil copy_bytes_def Let_def)

lemma sha512_Marshal_layout:
  assumes "unat (ctx_nx (ctx h)) \<le> length (ctx_x (ctx h))"
    and "ctx_h (ctx h) = (h0, h1, h2, h3, h4, h5, h6, h7)"
  shows "sha512_MarshalBinary h =
    Some (magic512 @ be64 h0 @ be64 h1 @ be64 h2 @ be64 h3 @ be64 h4 @ be64 h5 @ be64 h6 @ be64 h7 @
          take (unat (ctx_nx (ctx h))) (ctx_x (ctx h)) @
          replicate (length (ctx_x (ctx h)) - unat (ctx_nx (ctx h))) 0 @
          be64 (drop_bit 3 (ctx_nl (ctx h)) OR push_bit 61 (ctx_nh (ctx h))), None)"
  using assms
  by (simp add: sha512_MarshalBinary_def appendUint32_eq appendUint64_eq slice_to_def Let_def)

lemma sha512_Marshal_panic:
  assumes "length (ctx_x (ctx h)) < unat (ctx_nx (ctx h))"
  shows "sha512_MarshalBinary h = None"
  using assms
  by (simp add: sha512_MarshalBinary_def appendUint32_eq appendUint64_eq slice_to_def Let_def
      split: prod.splits)

lemma sha512_Unmarshal_errors:
  assumes "length (ctx_x (ctx h)) = 128"
  shows "map_option snd (sha512_UnmarshalBinary h b) =
     Some (if length b < 4 \<or> take 4 b \<noteq> magic512
           then Some ''crypto/sha512: invalid hash state identifier''
           else if length b \<noteq> marshaledSize512 then Some ''crypto/sha512: invalid hash state size''
           else None)"
  using assms
  by (simp add: sha512_UnmarshalBinary_def marshaledSize512_def length_magic512
      consumeUint32_def consumeUint64_def copy_bytes_def Let_def)

lemma sha512_Unmarshal_frame:
  assumes "sha512_UnmarshalBinary h b = Some (h', Some e)"
  shows "h' = h"
proof (cases "length b < 4 \<or> take 4 b \<noteq> magic512")
  case True
  with assms show ?thesis
    by (auto simp: sha512_UnmarshalBinary_def length_magic512 split: if_splits)
next
  case False
  note magic_ok = this
  show ?thesis
  proof (cases "length b = 204")
    case True
    with magic_ok assms show ?thesis
      by (simp add: sha512_UnmarshalBinary_def marshaledSize512_def length_magic512 consumeUint32_def
          consumeUint64_def copy_bytes_def Let_def split: if_splits prod.splits)
  next
    case False
    with magic_ok assms show ?thesis
      by (simp add: sha512_UnmarshalBinary_def marshaledSize512_def length_magic512)
  qed
qed

lemma sha512_Unmarshal_layout:
  assumes "length (ctx_x (ctx g)) = 128" "length xs = 128"
  shows "sha512_UnmarshalBinary g (magic512 @ be64 a0 @ be64 a1 @ be64 a2 @ be64 a3 @ be64 a4 @ be64 a5 @ be64 a6 @ be64 a7 @ xs @ be64 n) =
     Some (g\<lparr>ctx := (ctx g)\<lparr>ctx_h := (a0, a1, a2, a3, a4, a5, a6, a7), ctx_x := xs,
              ctx_nl := push_bit 3 n, ctx_nh := drop_bit 61 n, ctx_nx := ucast n mod 128\<rparr>\<rparr>, None)"
  using assms
  by (simp add: sha512_UnmarshalBinary_def marshaledSize512_def length_magic512 length_be32 length_be64
      consume_be32 consume_be64 consume_be64_nil copy_bytes_def Let_def)

section \<open>Facts about the wire format\<close>

lemma length_concat_words5: "length (concat (words5 hv)) = 20"
  by (simp add: words5_def case_prod_beta length_be32)

lemma length_concat_words8: "length (concat (words8 hv)) = 32"
  by (simp add: words8_def case_prod_beta length_be32)

lemma length_concat_words8l: "length (concat (words8l hv)) = 64"
  by (simp add: words8l_def case_prod_beta length_be64)

lemma tuple8_ex: "\<exists>a b c d e f g h. y = (a, b, c, d, e, f, g, h)"
proof -
  obtain a b c d e f r where "y = (a, b, c, d, e, f, r)" by (rule prod_cases7)
  moreover obtain g h where "r = (g, h)" by (rule prod.exhaust)
  ultimately show ?thesis by blast
qed

lemma length_wire_format:
  "n \<le> length x \<Longrightarrow> n \<le> bs \<Longrightarrow>
   length (wire_format magic hs x n bs field) = length magic + length (concat hs) + bs + 8"
  by (simp add: wire_format_def length_be64)

lemma sha1_Marshal_wire:
  assumes "ctx_valid 64 (ctx h)"
  shows "sha1_MarshalBinary h =
    Some (wire_format sha1Magic (words5 (ctx_h (ctx h))) (ctx_x (ctx h)) (unat (ctx_nx (ctx h))) 64
            (drop_bit 3 (ucast (ctx_nl (ctx h))) OR push_bit 29 (ucast (ctx_nh (ctx h)))), None)"
proof -
  obtain h0 h1 h2 h3 h4 where hv: "ctx_h (ctx h) = (h0, h1, h2, h3, h4)"
    by (metis prod_cases5)
  from assms have "unat (ctx_nx (ctx h)) \<le> length (ctx_x (ctx h))" and "length (ctx_x (ctx h)) = 64"
    by (simp_all add: ctx_valid_def)
  then show ?thesis
    by (simp add: sha1_Marshal_layout [OF _ hv] wire_format_def words5_def hv)
qed

lemma sha1_wire_length:
  assumes "ctx_valid 64 (ctx h)"
  shows "length (wire_format sha1Magic (words5 (ctx_h (ctx h))) (ctx_x (ctx h)) (unat (ctx_nx (ctx h))) 64
            (drop_bit 3 (ucast (ctx_nl (ctx h))) OR push_bit 29 (ucast (ctx_nh (ctx h))))) = 96"
  using assms
  by (simp add: ctx_valid_def length_wire_format length_sha1Magic length_concat_words5)

lemma sha224_Marshal_wire:
  assumes "ctx_valid 64 (ctx h)"
  shows "sha224_MarshalBinary h =
    Some (wire_format magic224 (words8 (ctx_h (ctx h))) (ctx_x (ctx h)) (unat (ctx_nx (ctx h))) 64
            (drop_bit 3 (ucast (ctx_nl (ctx h))) OR push_bit 29 (ucast (ctx_nh (ctx h)))), None)"
proof -
  obtain h0 h1 h2 h3 h4 h5 h6 h7 where hv: "ctx_h (ctx h) = (h0, h1, h2, h3, h4, h5, h6, h7)"
    by (metis tuple8_ex)
  from assms have "unat (ctx_nx (ctx h)) \<le> length (ctx_x (ctx h))" and "length (ctx_x (ctx h)) = 64"
    by (simp_all add: ctx_valid_def)
  then show ?thesis
    by (simp add: sha224_Marshal_layout [OF _ hv] wire_format_def words8_def hv)
qed

lemma sha224_wire_length:
  assumes "ctx_valid 64 (ctx h)"
  shows "length (wire_format magic224 (words8 (ctx_h (ctx h))) (ctx_x (ctx h)) (unat (ctx_nx (ctx h))) 64
            (drop_bit 3 (ucast (ctx_nl (ctx h))) OR push_bit 29 (ucast (ctx_nh (ctx h))))) = 108"
  using assms
  by (simp add: ctx_valid_def length_wire_format length_magic224 length_concat_words8)

lemma sha256_Marshal_wire:
  assumes "ctx_valid 64 (ctx h)"
  shows "sha256_MarshalBinary h =
    Some (wire_format magic256 (words8 (ctx_h (ctx h))) (ctx_x (ctx h)) (unat (ctx_nx (ctx h))) 64
            (drop_bit 3 (ucast (ctx_nl (ctx h))) OR push_bit 29 (ucast (ctx_nh (ctx h)))), None)"
proof -
  obtain h0 h1 h2 h3 h4 h5 h6 h7 where hv: "ctx_h (ctx h) = (h0, h1, h2, h3, h4, h5, h6, h7)"
    by (metis tuple8_ex)
  from assms have "unat (ctx_nx (ctx h)) \<le> length (ctx_x (ctx h))" and "length (ctx_x (ctx h)) = 64"
    by (simp_all add: ctx_valid_def)
  then show ?thesis
    by (simp add: sha256_Marshal_layout [OF _ hv] wire_format_def words8_def hv)
qed

lemma sha256_wire_length:
  assumes "ctx_valid 64 (ctx h)"
  shows "length (wire_format magic256 (words8 (ctx_h (ctx h))) (ctx_x (ctx h)) (unat (ctx_nx (ctx h))) 64
            (drop_bit 3 (ucast (ctx_nl (ctx h))) OR push_bit 29 (ucast (ctx_nh (ctx h))))) = 108"
  using assms
  by (simp add: ctx_valid_def length_wire_format length_magic256 length_concat_words8)

lemma sha384_Marshal_wire:
  assumes "ctx_valid 128 (ctx h)"
  shows "sha384_MarshalBinary h =
    Some (wire_format magic384 (words8l (ctx_h (ctx h))) (ctx_x (ctx h)) (unat (ctx_nx (ctx h))) 128
            (drop_bit 3 (ctx_nl (ctx h)) OR push_bit 61 (ctx_nh (ctx h))), None)"
proof -
  obtain h0 h1 h2 h3 h4 h5 h6 h7 where hv: "ctx_h (ctx h) = (h0, h1, h2, h3, h4, h5, h6, h7)"
    by (metis tuple8_ex)
  from assms have "unat (ctx_nx (ctx h)) \<le> length (ctx_x (ctx h))" and "length (ctx_x (ctx h)) = 128"
    by (simp_all add: ctx_valid_def)
  then show ?thesis
    by (simp add: sha384_Marshal_layout [OF _ hv] wire_format_def words8l_def hv)
qed

lemma sha384_wire_length:
  assumes "ctx_valid 128 (ctx h)"
  shows "length (wire_format magic384 (words8l (ctx_h (ctx h))) (ctx_x (ctx h)) (unat (ctx_nx (ctx h))) 128
            (drop_bit 3 (ctx_nl (ctx h)) OR push_bit 61 (ctx_nh (ctx h)))) = 204"
  using assms
  by (simp add: ctx_valid_def length_wire_format length_magic384 length_concat_words8l)

lemma sha512_Marshal_wire:
  assumes "ctx_valid 128 (ctx h)"
  shows "sha512_MarshalBinary h =
    Some (wire_format magic512 (words8l (ctx_h (ctx h))) (ctx_x (ctx h)) (unat (ctx_nx (ctx h))) 128
            (drop_bit 3 (ctx_nl (ctx h)) OR push_bit 61 (ctx_nh (ctx h))), None)"
proof -
  obtain h0 h1 h2 h3 h4 h5 h6 h7 where hv: "ctx_h (ctx h) = (h0, h1, h2, h3, h4, h5, h6, h7)"
    by (metis tuple8_ex)
  from assms have "unat (ctx_nx (ctx h)) \<le> length (ctx_x (ctx h))" and "length (ctx_x (ctx h)) = 128"
    by (simp_all add: ctx_valid_def)
  then show ?thesis
    by (simp add: sha512_Marshal_layout [OF _ hv] wire_format_def words8l_def hv)
qed

lemma sha512_wire_length:
  assumes "ctx_valid 128 (ctx h)"
  shows "length (wire_format magic512 (words8l (ctx_h (ctx h))) (ctx_x (ctx h)) (unat (ctx_nx (ctx h))) 128
            (drop_bit 3 (ctx_nl (ctx h)) OR push_bit 61 (ctx_nh (ctx h)))) = 204"
  using assms
  by (simp add: ctx_valid_def length_wire_format length_magic512 length_concat_words8l)

section \<open>Facts about the example contexts\<close>

lemma ex_sha1_valid: "ctx_valid 64 (ctx ex_sha1)"
  by (simp add: ctx_valid_def ex_sha1_def)

lemma ex_sha256_valid: "ctx_valid 64 (ctx ex_sha256)"
  by (simp add: ctx_valid_def ex_sha256_def)

lemma ex_sha512_valid: "ctx_valid 128 (ctx ex_sha512)"
  by (simp add: ctx_valid_def ex_sha512_def)


lemma ex_sha1_len: "length (ctx_x (ctx ex_sha1)) = 64"
  by (simp add: ex_sha1_def)

lemma ex_sha256_len: "length (ctx_x (ctx ex_sha256)) = 64"
  by (simp add: ex_sha256_def)

lemma ex_sha512_len: "length (ctx_x (ctx ex_sha512)) = 128"
  by (simp add: ex_sha512_def)

section \<open>Facts about the adapters\<close>

lemma sha1_Write_gen: "sha1_Write = gen_Write 64"
  by (intro ext) (simp add: sha1_Write_def gen_Write_def SHA1_Update_def)

lemma sha1_Sum_gen: "sha1_Sum = gen_sum 64"
  by (intro ext) (simp add: sha1_Sum_def sha1_sum_def gen_sum_def SHA1_Final_def)

lemma sha1_WriteString_Write: "sha1_WriteString A h s = sha1_Write A h s"
  by (simp add: sha1_WriteString_def sha1_Write_def)

lemma sha1_WriteByte_Write:
  "sha1_WriteByte A h c = map_option (\<lambda>(h', n, e). (h', e)) (sha1_Write A h [c])"
  by (simp add: sha1_WriteByte_def sha1_Write_def split: prod.splits)

lemma sha224_Write_gen: "sha224_Write = gen_Write 64"
  by (intro ext) (simp add: sha224_Write_def gen_Write_def SHA224_Update_def)

lemma sha224_Sum_gen: "sha224_Sum = gen_sum 64"
  by (intro ext) (simp add: sha224_Sum_def sha224_sum_def gen_sum_def SHA224_Final_def)

lemma sha256_Write_gen: "sha256_Write = gen_Write 64"
  by (intro ext) (simp add: sha256_Write_def gen_Write_def SHA256_Update_def)

lemma sha256_Sum_gen: "sha256_Sum = gen_sum 64"
  by (intro ext) (simp add: sha256_Sum_def sha256_sum_def gen_sum_def SHA256_Final_def)

lemma sha256_WriteString_Write: "sha256_WriteString A h s = sha256_Write A h s"
  by (simp add: sha256_WriteString_def sha256_Write_def)

lemma sha256_WriteByte_Write:
  "sha256_WriteByte A h c = map_option (\<lambda>(h', n, e). (h', e)) (sha256_Write A h [c])"
  by (simp add: sha256_WriteByte_def sha256_Write_def split: prod.splits)

lemma sha384_Write_gen: "sha384_Write = gen_Write 128"
  by (intro ext) (simp add: sha384_Write_def gen_Write_def SHA384_Update_def)

lemma sha384_Sum_gen: "sha384_Sum = gen_sum 128"
  by (intro ext) (simp add: sha384_Sum_def sha384_sum_def gen_sum_def SHA384_Final_def)

lemma sha384_WriteString_Write: "sha384_WriteString A h s = sha384_Write A h s"
  by (simp add: sha384_WriteString_def sha384_Write_def)

lemma sha384_WriteByte_Write:
  "sha384_WriteByte A h c = map_option (\<lambda>(h', n, e). (h', e)) (sha384_Write A h [c])"
  by (simp add: sha384_WriteByte_def sha384_Write_def split: prod.splits)

lemma sha512_Write_gen: "sha512_Write = gen_Write 128"
  by (intro ext) (simp add: sha512_Write_def gen_Write_def SHA512_Update_def)

lemma sha512_Sum_gen: "sha512_Sum = gen_sum 128"
  by (intro ext) (simp add: sha512_Sum_def sha512_sum_def gen_sum_def SHA512_Final_def)

lemma sha512_WriteString_Write: "sha512_WriteString A h s = sha512_Write A h s"
  by (simp add: sha512_WriteString_def sha512_Write_def)

lemma sha512_WriteByte_Write:
  "sha512_WriteByte A h c = map_option (\<lambda>(h', n, e). (h', e)) (sha512_Write A h [c])"
  by (simp add: sha512_WriteByte_def sha512_Write_def split: prod.splits)

lemma gen_Write_nil: "gen_Write bs A h [] = Some (h, 0, None)"
  by (simp add: gen_Write_def)

lemma gen_Write_None:
  "gen_Write bs A h p = None \<longleftrightarrow> p \<noteq> [] \<and> fst (prim_Update bs A (ctx h) p) = 0"
  by (simp add: gen_Write_def split: prod.splits)

lemma gen_Write_ret:
  "gen_Write bs A h p = Some (h', n, e) \<Longrightarrow> n = length p \<and> e = None"
  by (auto simp: gen_Write_def split: prod.splits if_splits)

lemma gen_Write_valid:
  fixes h :: "('h, 'w::len word) shaCtx boringHash"
  assumes "ctx_valid bs (ctx h)" "bs \<le> 2 ^ 32" "gen_Write bs A h p = Some (h', r)"
  shows "ctx_valid bs (ctx h')"
  using assms valid_Update [OF assms(1,2), of A p]
  by (auto simp: gen_Write_eq [OF assms(1)])

lemma prim_Final_eq:
  "unat (ctx_nx c) < bs \<Longrightarrow>
   prim_Final bs A c =
     (1, alg_final A (ctx_h c) (take (unat (ctx_nx c)) (ctx_x c)) (bitcount c),
      c\<lparr>ctx_x := replicate bs 0, ctx_nx := 0\<rparr>)"
  by (simp add: prim_Final_def)

lemma gen_sum_frame:
  "gen_sum bs A h dst = Some (h', r) \<Longrightarrow> h' = h \<and> r = dst @ fst (snd (prim_Final bs A (ctx h)))"
  by (auto simp: gen_sum_def Let_def split: prod.splits if_splits)

lemma gen_sum_None:
  "gen_sum bs A h dst = None \<longleftrightarrow> fst (prim_Final bs A (ctx h)) = 0"
  by (simp add: gen_sum_def Let_def split: prod.splits)

lemma gen_sum_valid:
  fixes h :: "('h, 'w::len word) shaCtx boringHash"
  assumes "ctx_valid bs (ctx h)"
  shows "gen_sum bs A h dst =
    Some (h, dst @ alg_final A (ctx_h (ctx h)) (take (unat (ctx_nx (ctx h))) (ctx_x (ctx h))) (bitcount (ctx h)))"
  using assms by (simp add: gen_sum_def Let_def ctx_valid_def prim_Final_eq)

lemma sha1_ex_Write:
  "sha1_Write demo5 ex_sha1 [1] = Some (ex_sha1\<lparr>ctx := (ctx ex_sha1)\<lparr>ctx_nl := 32, ctx_x := [7, 8, 9, 1] @ replicate 60 0, ctx_nx := 4\<rparr>\<rparr>, 1, None)"
  apply (simp only: sha1_Write_gen gen_Write_eq [OF ex_sha1_valid])
  apply (simp add: prim_Update_eq absorb_short ex_sha1_def bitcount_def)
  done

lemma sha1_ex_Sum:
  "sha1_Sum demo5 ex_sha1 [0xAA] = Some (ex_sha1, [0xAA] @ [0, 0, 0, 1, 0, 0, 0, 5, 7, 8, 9, 0, 0, 0, 0, 0, 0, 0, 24])"
  apply (simp only: sha1_Sum_gen gen_sum_valid [OF ex_sha1_valid])
  apply (simp add: ex_sha1_def demo5_def bitcount_def be32_def be64_def)
  done

lemma sha224_ex_Write:
  "sha224_Write demo8 ex_sha256 [1] = Some (ex_sha256\<lparr>ctx := (ctx ex_sha256)\<lparr>ctx_nl := 32, ctx_x := [7, 8, 9, 1] @ replicate 60 0, ctx_nx := 4\<rparr>\<rparr>, 1, None)"
  apply (simp only: sha224_Write_gen gen_Write_eq [OF ex_sha256_valid])
  apply (simp add: prim_Update_eq absorb_short ex_sha256_def bitcount_def)
  done

lemma sha224_ex_Sum:
  "sha224_Sum demo8 ex_sha256 [0xAA] = Some (ex_sha256, [0xAA] @ [0, 0, 0, 1, 0, 0, 0, 8, 7, 8, 9, 0, 0, 0, 0, 0, 0, 0, 24])"
  apply (simp only: sha224_Sum_gen gen_sum_valid [OF ex_sha256_valid])
  apply (simp add: ex_sha256_def demo8_def bitcount_def be32_def be64_def)
  done

lemma sha256_ex_Write:
  "sha256_Write demo8 ex_sha256 [1] = Some (ex_sha256\<lparr>ctx := (ctx ex_sha256)\<lparr>ctx_nl := 32, ctx_x := [7, 8, 9, 1] @ replicate 60 0, ctx_nx := 4\<rparr>\<rparr>, 1, None)"
  apply (simp only: sha256_Write_gen gen_Write_eq [OF ex_sha256_valid])
  apply (simp add: prim_Update_eq absorb_short ex_sha256_def bitcount_def)
  done

lemma sha256_ex_Sum:
  "sha256_Sum demo8 ex_sha256 [0xAA] = Some (ex_sha256, [0xAA] @ [0, 0, 0, 1, 0, 0, 0, 8, 7, 8, 9, 0, 0, 0, 0, 0, 0, 0, 24])"
  apply (simp only: sha256_Sum_gen gen_sum_valid [OF ex_sha256_valid])
  apply (simp add: ex_sha256_def demo8_def bitcount_def be32_def be64_def)
  done

lemma sha384_ex_Write:
  "sha384_Write demo8l ex_sha512 [1] = Some (ex_sha512\<lparr>ctx := (ctx ex_sha512)\<lparr>ctx_nl := 32, ctx_x := [7, 8, 9, 1] @ replicate 124 0, ctx_nx := 4\<rparr>\<rparr>, 1, None)"
  apply (simp only: sha384_Write_gen gen_Write_eq [OF ex_sha512_valid])
  apply (simp add: prim_Update_eq absorb_short ex_sha512_def bitcount_def)
  done

lemma sha384_ex_Sum:
  "sha384_Sum demo8l ex_sha512 [0xAA] = Some (ex_sha512, [0xAA] @ [0, 0, 0, 0, 0, 0, 0, 1, 0, 0, 0, 0, 0, 0, 0, 8, 7, 8, 9,
          0, 0, 0, 0, 0, 0, 0, 0, 0, 0, 0, 0, 0, 0, 0, 24])"
  apply (simp only: sha384_Sum_gen gen_sum_valid [OF ex_sha512_valid])
  apply (simp add: ex_sha512_def demo8l_def bitcount_def be32_def be64_def)
  done

lemma sha512_ex_Write:
  "sha512_Write demo8l ex_sha512 [1] = Some (ex_sha512\<lparr>ctx := (ctx ex_sha512)\<lparr>ctx_nl := 32, ctx_x := [7, 8, 9, 1] @ replicate 124 0, ctx_nx := 4\<rparr>\<rparr>, 1, None)"
  apply (simp only: sha512_Write_gen gen_Write_eq [OF ex_sha512_valid])
  apply (simp add: prim_Update_eq absorb_short ex_sha512_def bitcount_def)
  done

lemma sha512_ex_Sum:
  "sha512_Sum demo8l ex_sha512 [0xAA] = Some (ex_sha512, [0xAA] @ [0, 0, 0, 0, 0, 0, 0, 1, 0, 0, 0, 0, 0, 0, 0, 8, 7, 8, 9,
          0, 0, 0, 0, 0, 0, 0, 0, 0, 0, 0, 0, 0, 0, 0, 24])"
  apply (simp only: sha512_Sum_gen gen_sum_valid [OF ex_sha512_valid])
  apply (simp add: ex_sha512_def demo8l_def bitcount_def be32_def be64_def)
  done

section \<open>Facts about restoring a marshaled context\<close>

lemma unat_lt32: "unat (w :: uint32) < 4294967296"
  using unsigned_less [of w, where ?'a = nat] by simp

lemma unat_lt64: "unat (w :: uint64) < 18446744073709551616"
  using unsigned_less [of w, where ?'a = nat] by simp

lemma pack32_value:
  fixes nl nh :: uint32
  shows "(drop_bit 3 (ucast nl) OR push_bit 29 (ucast nh) :: uint64) = of_nat ((unat nh * 2 ^ 32 + unat nl) div 8)"
proof -
  have disj: "\<And>n. \<not> bit (drop_bit 3 (ucast nl) :: uint64) n \<or> \<not> bit (push_bit 29 (ucast nh) :: uint64) n"
    by (auto simp: bit_simps dest: bit_imp_le_length)
  have "(unat nh * 2 ^ 32 + unat nl) div 8 = unat nh * 2 ^ 29 + unat nl div 8"
    by simp
  moreover have "(of_nat (unat nl div 8) :: uint64) = drop_bit 3 (ucast nl)"
    using unat_lt32 [of nl]
    by (simp add: word_unat_eq_iff unat_of_nat unat_div unsigned_ucast_eq drop_bit_eq_div take_bit_eq_mod)
  moreover have "(of_nat (unat nh * 2 ^ 29) :: uint64) = push_bit 29 (ucast nh)"
    by (simp add: push_bit_eq_mult)
  ultimately show ?thesis
    by (simp add: disjunctive_add [OF disj, symmetric])
qed

lemma pack64_value:
  fixes nl nh :: uint64
  assumes "nh = 0"
  shows "(drop_bit 3 nl OR push_bit 61 nh) = of_nat (unat nl div 8)"
proof -
  have "drop_bit 3 nl = of_nat (unat nl div 8)"
    using unat_lt64 [of nl]
    by (simp add: word_unat_eq_iff unat_of_nat unat_div drop_bit_eq_div)
  then show ?thesis
    by (simp add: assms)
qed

lemma unat_nl_bitcount:
  fixes c :: "('h, 'w::len word) shaCtx"
  shows "unat (ctx_nl c) = bitcount c mod 2 ^ LENGTH('w)"
  using unsigned_less [of "ctx_nl c", where ?'a = nat]
  by (simp add: bitcount_def)

lemma unat_nh_bitcount:
  fixes c :: "('h, 'w::len word) shaCtx"
  shows "unat (ctx_nh c) = bitcount c div 2 ^ LENGTH('w)"
  using unsigned_less [of "ctx_nl c", where ?'a = nat]
  by (simp add: bitcount_def)

lemma counts32:
  fixes c :: "('h, uint32) shaCtx"
  assumes "counts_for 64 L c"
  shows "8 dvd unat (ctx_nl c)" and "unat (ctx_nl c) div 8 mod 64 = unat (ctx_nx c)"
proof -
  from assms have b: "bitcount c = (8 * L) mod 2 ^ 64" and n: "unat (ctx_nx c) = L mod 64"
    by (simp_all add: counts_for_def)
  have "unat (ctx_nl c) = (8 * L) mod 2 ^ 64 mod 2 ^ 32"
    by (simp add: unat_nl_bitcount b)
  also have "\<dots> = (8 * L) mod (8 * 2 ^ 29)"
    by (simp add: mod_mod_cancel)
  also have "\<dots> = 8 * (L mod 2 ^ 29)"
    by (simp only: mult_mod_right)
  finally have nl: "unat (ctx_nl c) = 8 * (L mod 2 ^ 29)" .
  then show "8 dvd unat (ctx_nl c)" by simp
  have "L mod 2 ^ 29 mod 64 = L mod 64"
    by (simp add: mod_mod_cancel)
  with nl n show "unat (ctx_nl c) div 8 mod 64 = unat (ctx_nx c)" by simp
qed

lemma counts64:
  fixes c :: "('h, uint64) shaCtx"
  assumes "counts_for 128 L c"
  shows "8 dvd unat (ctx_nl c)" and "unat (ctx_nl c) div 8 mod 128 = unat (ctx_nx c)"
    and "L < 2 ^ 64 \<Longrightarrow> unat (ctx_nh c) < 8"
proof -
  from assms have b: "bitcount c = (8 * L) mod 2 ^ 128" and n: "unat (ctx_nx c) = L mod 128"
    by (simp_all add: counts_for_def)
  have "unat (ctx_nl c) = (8 * L) mod 2 ^ 128 mod 2 ^ 64"
    by (simp add: unat_nl_bitcount b)
  also have "\<dots> = (8 * L) mod (8 * 2 ^ 61)"
    by (simp add: mod_mod_cancel)
  also have "\<dots> = 8 * (L mod 2 ^ 61)"
    by (simp only: mult_mod_right)
  finally have nl: "unat (ctx_nl c) = 8 * (L mod 2 ^ 61)" .
  then show "8 dvd unat (ctx_nl c)" by simp
  have "L mod 2 ^ 61 mod 128 = L mod 128"
    by (simp add: mod_mod_cancel)
  with nl n show "unat (ctx_nl c) div 8 mod 128 = unat (ctx_nx c)" by simp
  assume "L < 2 ^ 64"
  then have "8 * L < 8 * 2 ^ 64" by simp
  then have "(8 * L) mod 2 ^ 128 div 2 ^ 64 < 8"
    by (simp add: less_mult_imp_div_less)
  then show "unat (ctx_nh c) < 8"
    by (simp add: unat_nh_bitcount b)
qed

lemma drop_wire_format:
  "n \<le> length x \<Longrightarrow> n \<le> bs \<Longrightarrow>
   drop (length magic + length (concat hs) + bs) (wire_format magic hs x n bs field) = be64 field"
  by (simp add: wire_format_def)

lemma counts32_field:
  fixes c :: "('h, uint32) shaCtx"
  assumes "counts_for 64 L c" "L < 2 ^ 61"
  shows "(drop_bit 3 (ucast (ctx_nl c)) OR push_bit 29 (ucast (ctx_nh c)) :: uint64) = of_nat L"
proof -
  from assms(2) have "8 * L < 2 ^ 64" by simp
  with assms(1) have "bitcount c = 8 * L" by (simp add: counts_for_def)
  then show ?thesis
    using pack32_value [of "ctx_nl c" "ctx_nh c"] by (simp add: bitcount_def)
qed

lemma counts64_field:
  fixes c :: "('h, uint64) shaCtx"
  assumes "counts_for 128 L c" "L < 2 ^ 61"
  shows "(drop_bit 3 (ctx_nl c) OR push_bit 61 (ctx_nh c)) = of_nat L"
proof -
  from assms(2) have lt: "8 * L < 2 ^ 64" by simp
  then have "8 * L < 2 ^ 128" by simp
  with assms(1) have b: "bitcount c = 8 * L" by (simp add: counts_for_def)
  have "unat (ctx_nh c) = 0"
    using lt by (simp add: unat_nh_bitcount b)
  then have nh: "ctx_nh c = 0" by (simp add: unat_eq_0)
  have "unat (ctx_nl c) = 8 * L"
    using lt by (simp add: unat_nl_bitcount b)
  then show ?thesis
    using pack64_value [OF nh, of "ctx_nl c"] by simp
qed

lemma sha1_restore:
  assumes "counts_for 64 L (ctx h)" "length (ctx_x (ctx g)) = 64"
  shows "\<exists>g'. sha1_UnmarshalBinary g
           (wire_format sha1Magic (words5 (ctx_h (ctx h))) (ctx_x (ctx h)) (unat (ctx_nx (ctx h))) 64
              (drop_bit 3 (ucast (ctx_nl (ctx h))) OR push_bit 29 (ucast (ctx_nh (ctx h))))) = Some (g', None) \<and>
         same_state (ctx g') (ctx h) \<and> out g' = out g"
proof -
  obtain h0 h1 h2 h3 h4 where hv: "ctx_h (ctx h) = (h0, h1, h2, h3, h4)"
    by (metis prod_cases5)
  from assms(1) have v: "length (ctx_x (ctx h)) = 64" "unat (ctx_nx (ctx h)) < 64"
    by (simp_all add: counts_for_def ctx_valid_def)
  let ?xs = "take (unat (ctx_nx (ctx h))) (ctx_x (ctx h)) @ replicate (64 - unat (ctx_nx (ctx h))) 0"
  have len: "length ?xs = 64" using v by simp
  define n :: uint64 where "n = drop_bit 3 (ucast (ctx_nl (ctx h))) OR push_bit 29 (ucast (ctx_nh (ctx h)))"
  have e1: "ucast (push_bit 3 n) = ctx_nl (ctx h)"
    unfolding n_def by (rule unpack32_nl [OF counts32(1) [OF assms(1)]])
  have e2: "ucast (drop_bit 29 n) = ctx_nh (ctx h)"
    unfolding n_def by (rule unpack32_nh)
  have e3: "(ucast n :: uint32) mod 64 = ctx_nx (ctx h)"
    unfolding n_def by (simp only: word_unat_eq_iff unpack32_nx counts32(2) [OF assms(1)])
  let ?g' = "g\<lparr>ctx := (ctx g)\<lparr>ctx_h := (h0, h1, h2, h3, h4), ctx_x := ?xs,
                ctx_nl := ctx_nl (ctx h), ctx_nh := ctx_nh (ctx h), ctx_nx := ctx_nx (ctx h)\<rparr>\<rparr>"
  have U: "sha1_UnmarshalBinary g
           (wire_format sha1Magic (words5 (ctx_h (ctx h))) (ctx_x (ctx h)) (unat (ctx_nx (ctx h))) 64
              (n))
         = Some (?g', None)"
    using sha1_Unmarshal_layout [OF assms(2) len, of h0 h1 h2 h3 h4 n, unfolded e1 e2 e3]
    by (simp add: wire_format_def words5_def hv)
  have S: "same_state (ctx ?g') (ctx h)"
    using v by (simp add: same_state_def hv)
  show ?thesis
    unfolding n_def [symmetric]
    by (rule exI [of _ ?g']) (simp only: U S simp_thms, simp)
qed

lemma sha224_restore:
  assumes "counts_for 64 L (ctx h)" "length (ctx_x (ctx g)) = 64"
  shows "\<exists>g'. sha224_UnmarshalBinary g
           (wire_format magic224 (words8 (ctx_h (ctx h))) (ctx_x (ctx h)) (unat (ctx_nx (ctx h))) 64
              (drop_bit 3 (ucast (ctx_nl (ctx h))) OR push_bit 29 (ucast (ctx_nh (ctx h))))) = Some (g', None) \<and>
         same_state (ctx g') (ctx h) \<and> out g' = out g"
proof -
  obtain h0 h1 h2 h3 h4 h5 h6 h7 where hv: "ctx_h (ctx h) = (h0, h1, h2, h3, h4, h5, h6, h7)"
    by (metis tuple8_ex)
  from assms(1) have v: "length (ctx_x (ctx h)) = 64" "unat (ctx_nx (ctx h)) < 64"
    by (simp_all add: counts_for_def ctx_valid_def)
  let ?xs = "take (unat (ctx_nx (ctx h))) (ctx_x (ctx h)) @ replicate (64 - unat (ctx_nx (ctx h))) 0"
  have len: "length ?xs = 64" using v by simp
  define n :: uint64 where "n = drop_bit 3 (ucast (ctx_nl (ctx h))) OR push_bit 29 (ucast (ctx_nh (ctx h)))"
  have e1: "ucast (push_bit 3 n) = ctx_nl (ctx h)"
    unfolding n_def by (rule unpack32_nl [OF counts32(1) [OF assms(1)]])
  have e2: "ucast (drop_bit 29 n) = ctx_nh (ctx h)"
    unfolding n_def by (rule unpack32_nh)
  have e3: "(ucast n :: uint32) mod 64 = ctx_nx (ctx h)"
    unfolding n_def by (simp only: word_unat_eq_iff unpack32_nx counts32(2) [OF assms(1)])
  let ?g' = "g\<lparr>ctx := (ctx g)\<lparr>ctx_h := (h0, h1, h2, h3, h4, h5, h6, h7), ctx_x := ?xs,
                ctx_nl := ctx_nl (ctx h), ctx_nh := ctx_nh (ctx h), ctx_nx := ctx_nx (ctx h)\<rparr>\<rparr>"
  have U: "sha224_UnmarshalBinary g
           (wire_format magic224 (words8 (ctx_h (ctx h))) (ctx_x (ctx h)) (unat (ctx_nx (ctx h))) 64
              (n))
         = Some (?g', None)"
    using sha224_Unmarshal_layout [OF assms(2) len, of h0 h1 h2 h3 h4 h5 h6 h7 n, unfolded e1 e2 e3]
    by (simp add: wire_format_def words8_def hv)
  have S: "same_state (ctx ?g') (ctx h)"
    using v by (simp add: same_state_def hv)
  show ?thesis
    unfolding n_def [symmetric]
    by (rule exI [of _ ?g']) (simp only: U S simp_thms, simp)
qed

lemma sha256_restore:
  assumes "counts_for 64 L (ctx h)" "length (ctx_x (ctx g)) = 64"
  shows "\<exists>g'. sha256_UnmarshalBinary g
           (wire_format magic256 (words8 (ctx_h (ctx h))) (ctx_x (ctx h)) (unat (ctx_nx (ctx h))) 64
              (drop_bit 3 (ucast (ctx_nl (ctx h))) OR push_bit 29 (ucast (ctx_nh (ctx h))))) = Some (g', None) \<and>
         same_state (ctx g') (ctx h) \<and> out g' = out g"
proof -
  obtain h0 h1 h2 h3 h4 h5 h6 h7 where hv: "ctx_h (ctx h) = (h0, h1, h2, h3, h4, h5, h6, h7)"
    by (metis tuple8_ex)
  from assms(1) have v: "length (ctx_x (ctx h)) = 64" "unat (ctx_nx (ctx h)) < 64"
    by (simp_all add: counts_for_def ctx_valid_def)
  let ?xs = "take (unat (ctx_nx (ctx h))) (ctx_x (ctx h)) @ replicate (64 - unat (ctx_nx (ctx h))) 0"
  have len: "length ?xs = 64" using v by simp
  define n :: uint64 where "n = drop_bit 3 (ucast (ctx_nl (ctx h))) OR push_bit 29 (ucast (ctx_nh (ctx h)))"
  have e1: "ucast (push_bit 3 n) = ctx_nl (ctx h)"
    unfolding n_def by (rule unpack32_nl [OF counts32(1) [OF assms(1)]])
  have e2: "ucast (drop_bit 29 n) = ctx_nh (ctx h)"
    unfolding n_def by (rule unpack32_nh)
  have e3: "(ucast n :: uint32) mod 64 = ctx_nx (ctx h)"
    unfolding n_def by (simp only: word_unat_eq_iff unpack32_nx counts32(2) [OF assms(1)])
  let ?g' = "g\<lparr>ctx := (ctx g)\<lparr>ctx_h := (h0, h1, h2, h3, h4, h5, h6, h7), ctx_x := ?xs,
                ctx_nl := ctx_nl (ctx h), ctx_nh := ctx_nh (ctx h), ctx_nx := ctx_nx (ctx h)\<rparr>\<rparr>"
  have U: "sha256_UnmarshalBinary g
           (wire_format magic256 (words8 (ctx_h (ctx h))) (ctx_x (ctx h)) (unat (ctx_nx (ctx h))) 64
              (n))
         = Some (?g', None)"
    using sha256_Unmarshal_layout [OF assms(2) len, of h0 h1 h2 h3 h4 h5 h6 h7 n, unfolded e1 e2 e3]
    by (simp add: wire_format_def words8_def hv)
  have S: "same_state (ctx ?g') (ctx h)"
    using v by (simp add: same_state_def hv)
  show ?thesis
    unfolding n_def [symmetric]
    by (rule exI [of _ ?g']) (simp only: U S simp_thms, simp)
qed

lemma sha384_restore:
  assumes "counts_for 128 L (ctx h)" "L < 2 ^ 64" "length (ctx_x (ctx g)) = 128"
  shows "\<exists>g'. sha384_UnmarshalBinary g
           (wire_format magic384 (words8l (ctx_h (ctx h))) (ctx_x (ctx h)) (unat (ctx_nx (ctx h))) 128
              (drop_bit 3 (ctx_nl (ctx h)) OR push_bit 61 (ctx_nh (ctx h)))) = Some (g', None) \<and>
         same_state (ctx g') (ctx h) \<and> out g' = out g"
proof -
  obtain h0 h1 h2 h3 h4 h5 h6 h7 where hv: "ctx_h (ctx h) = (h0, h1, h2, h3, h4, h5, h6, h7)"
    by (metis tuple8_ex)
  from assms(1) have v: "length (ctx_x (ctx h)) = 128" "unat (ctx_nx (ctx h)) < 128"
    by (simp_all add: counts_for_def ctx_valid_def)
  let ?xs = "take (unat (ctx_nx (ctx h))) (ctx_x (ctx h)) @ replicate (128 - unat (ctx_nx (ctx h))) 0"
  have len: "length ?xs = 128" using v by simp
  define n :: uint64 where "n = drop_bit 3 (ctx_nl (ctx h)) OR push_bit 61 (ctx_nh (ctx h))"
  have e1: "push_bit 3 n = ctx_nl (ctx h)"
    unfolding n_def by (rule unpack64_nl [OF counts64(1) [OF assms(1)]])
  have e2: "drop_bit 61 n = ctx_nh (ctx h)"
    unfolding n_def by (rule unpack64_nh [OF counts64(3) [OF assms(1,2)]])
  have e3: "(ucast n :: uint32) mod 128 = ctx_nx (ctx h)"
    unfolding n_def by (simp only: word_unat_eq_iff unpack64_nx counts64(2) [OF assms(1)])
  let ?g' = "g\<lparr>ctx := (ctx g)\<lparr>ctx_h := (h0, h1, h2, h3, h4, h5, h6, h7), ctx_x := ?xs,
                ctx_nl := ctx_nl (ctx h), ctx_nh := ctx_nh (ctx h), ctx_nx := ctx_nx (ctx h)\<rparr>\<rparr>"
  have U: "sha384_UnmarshalBinary g
           (wire_format magic384 (words8l (ctx_h (ctx h))) (ctx_x (ctx h)) (unat (ctx_nx (ctx h))) 128
              (n))
         = Some (?g', None)"
    using sha384_Unmarshal_layout [OF assms(3) len, of h0 h1 h2 h3 h4 h5 h6 h7 n, unfolded e1 e2 e3]
    by (simp add: wire_format_def words8l_def hv)
  have S: "same_state (ctx ?g') (ctx h)"
    using v by (simp add: same_state_def hv)
  show ?thesis
    unfolding n_def [symmetric]
    by (rule exI [of _ ?g']) (simp only: U S simp_thms, simp)
qed

lemma sha512_restore:
  assumes "counts_for 128 L (ctx h)" "L < 2 ^ 64" "length (ctx_x (ctx g)) = 128"
  shows "\<exists>g'. sha512_UnmarshalBinary g
           (wire_format magic512 (words8l (ctx_h (ctx h))) (ctx_x (ctx h)) (unat (ctx_nx (ctx h))) 128
              (drop_bit 3 (ctx_nl (ctx h)) OR push_bit 61 (ctx_nh (ctx h)))) = Some (g', None) \<and>
         same_state (ctx g') (ctx h) \<and> out g' = out g"
proof -
  obtain h0 h1 h2 h3 h4 h5 h6 h7 where hv: "ctx_h (ctx h) = (h0, h1, h2, h3, h4, h5, h6, h7)"
    by (metis tuple8_ex)
  from assms(1) have v: "length (ctx_x (ctx h)) = 128" "unat (ctx_nx (ctx h)) < 128"
    by (simp_all add: counts_for_def ctx_valid_def)
  let ?xs = "take (unat (ctx_nx (ctx h))) (ctx_x (ctx h)) @ replicate (128 - unat (ctx_nx (ctx h))) 0"
  have len: "length ?xs = 128" using v by simp
  define n :: uint64 where "n = drop_bit 3 (ctx_nl (ctx h)) OR push_bit 61 (ctx_nh (ctx h))"
  have e1: "push_bit 3 n = ctx_nl (ctx h)"
    unfolding n_def by (rule unpack64_nl [OF counts64(1) [OF assms(1)]])
  have e2: "drop_bit 61 n = ctx_nh (ctx h)"
    unfolding n_def by (rule unpack64_nh [OF counts64(3) [OF assms(1,2)]])
  have e3: "(ucast n :: uint32) mod 128 = ctx_nx (ctx h)"
    unfolding n_def by (simp only: word_unat_eq_iff unpack64_nx counts64(2) [OF assms(1)])
  let ?g' = "g\<lparr>ctx := (ctx g)\<lparr>ctx_h := (h0, h1, h2, h3, h4, h5, h6, h7), ctx_x := ?xs,
                ctx_nl := ctx_nl (ctx h), ctx_nh := ctx_nh (ctx h), ctx_nx := ctx_nx (ctx h)\<rparr>\<rparr>"
  have U: "sha512_UnmarshalBinary g
           (wire_format magic512 (words8l (ctx_h (ctx h))) (ctx_x (ctx h)) (unat (ctx_nx (ctx h))) 128
              (n))
         = Some (?g', None)"
    using sha512_Unmarshal_layout [OF assms(3) len, of h0 h1 h2 h3 h4 h5 h6 h7 n, unfolded e1 e2 e3]
    by (simp add: wire_format_def words8l_def hv)
  have S: "same_state (ctx ?g') (ctx h)"
    using v by (simp add: same_state_def hv)
  show ?thesis
    unfolding n_def [symmetric]
    by (rule exI [of _ ?g']) (simp only: U S simp_thms, simp)
qed

section \<open>Facts about contexts reached by writes\<close>

lemma reached_counts:
  fixes h :: "('h, 'w::len word) shaCtx boringHash"
  assumes "ctx h = prim_Init bs A c0" "0 < bs" "bs \<le> 2 ^ 32"
    and "writes (gen_Write bs A) h ps = Some h'"
  shows "counts_for bs (length (concat ps)) (ctx h')"
  using reached_gen(1,2,3) [OF assms] by (simp add: counts_for_def)

lemma reached_exists:
  fixes h :: "('h, 'w::len word) shaCtx boringHash"
  assumes "ctx h = prim_Init bs A c0" "0 < bs" "bs \<le> 2 ^ 32"
  shows "\<exists>h'. writes (gen_Write bs A) h ps = Some h'"
proof -
  have "ctx_valid bs (ctx h)" using assms(1,2) by (simp add: valid_Init)
  from writes_gen [OF this assms(3), of A ps] show ?thesis by blast
qed

lemma same_state_digest:
  fixes c c' :: "('h, 'w::len word) shaCtx"
  assumes "same_state c c'"
  shows "alg_final A (ctx_h c) (take (unat (ctx_nx c)) (ctx_x c)) (bitcount c) =
         alg_final A (ctx_h c') (take (unat (ctx_nx c')) (ctx_x c')) (bitcount c')"
proof -
  from assms have a: "ctx_h c = ctx_h c'"
    by (simp add: same_state_def)
  from assms have b: "take (unat (ctx_nx c)) (ctx_x c) = take (unat (ctx_nx c')) (ctx_x c')"
    by (auto simp: same_state_def)
  show ?thesis
    by (simp only: a b same_state_bitcount [OF assms])
qed

lemma calls_same:
  fixes g s :: "('h, 'w::len word) shaCtx boringHash"
  assumes "same_state (ctx g) (ctx s)" "ctx_valid bs (ctx s)" "bs \<le> 2 ^ 32"
  shows "calls (gen_Write bs A) (gen_sum bs A) g cs = calls (gen_Write bs A) (gen_sum bs A) s cs"
  using assms(1,2)
proof (induction cs arbitrary: g s)
  case Nil
  then show ?case by simp
next
  case (Cons c cs)
  from Cons.prems have vg: "ctx_valid bs (ctx g)"
    using same_state_valid same_state_sym by blast
  show ?case
  proof (cases c)
    case (Write_call p)
    let ?g' = "g\<lparr>ctx := snd (prim_Update bs A (ctx g) p)\<rparr>"
    let ?s' = "s\<lparr>ctx := snd (prim_Update bs A (ctx s) p)\<rparr>"
    have "same_state (ctx ?g') (ctx ?s')"
      using same_state_Update [OF Cons.prems(1) vg assms(3), of A p] by simp
    moreover have "ctx_valid bs (ctx ?s')"
      using valid_Update [OF Cons.prems(2) assms(3), of A p] by simp
    ultimately have "calls (gen_Write bs A) (gen_sum bs A) ?g' cs =
        calls (gen_Write bs A) (gen_sum bs A) ?s' cs"
      by (rule Cons.IH)
    then show ?thesis
      by (simp add: Write_call gen_Write_eq [OF vg] gen_Write_eq [OF Cons.prems(2)])
  next
    case (Sum_call dst)
    have "calls (gen_Write bs A) (gen_sum bs A) g cs = calls (gen_Write bs A) (gen_sum bs A) s cs"
      using Cons.prems by (rule Cons.IH)
    then show ?thesis
      by (simp add: Sum_call gen_sum_valid [OF vg] gen_sum_valid [OF Cons.prems(2)]
          same_state_digest [OF Cons.prems(1)])
  qed
qed

lemma sum_after_gen:
  fixes h :: "('h, 'w::len word) shaCtx boringHash"
  assumes "ctx h = prim_Init bs A c0" "0 < bs" "bs \<le> 2 ^ 32"
  shows "sum_after (gen_Write bs A) (gen_sum bs A) h ps dst =
    Some (dst @ alg_final A (fst (absorb bs (alg_block A) (alg_iv A) (concat ps)))
                   (snd (absorb bs (alg_block A) (alg_iv A) (concat ps)))
                   ((8 * length (concat ps)) mod 2 ^ (2 * LENGTH('w))))"
proof -
  from reached_exists [OF assms, of ps] obtain h' where
    w: "writes (gen_Write bs A) h ps = Some h'" by blast
  note r = reached_gen [OF assms w]
  have v: "ctx_valid bs (ctx h)" using assms(1,2) by (simp add: valid_Init)
  let ?U = "snd (prim_Update bs A (ctx h) (concat ps))"
  have p: "(ctx_h ?U, take (unat (ctx_nx ?U)) (ctx_x ?U)) =
      absorb bs (alg_block A) (alg_iv A) (concat ps)"
    using pending_Update [OF v assms(3), of A "concat ps"]
    by (simp add: assms(1) prim_Init_def)
  have p1: "fst (absorb bs (alg_block A) (alg_iv A) (concat ps)) = ctx_h ?U"
    and p2: "snd (absorb bs (alg_block A) (alg_iv A) (concat ps)) = take (unat (ctx_nx ?U)) (ctx_x ?U)"
    by (simp_all add: p [symmetric])
  have bU: "bitcount ?U = (8 * length (concat ps)) mod 2 ^ (2 * LENGTH('w))"
    using same_state_bitcount [OF r(4)] r(2) by simp
  have "alg_final A (ctx_h (ctx h')) (take (unat (ctx_nx (ctx h'))) (ctx_x (ctx h'))) (bitcount (ctx h')) =
      alg_final A (ctx_h ?U) (take (unat (ctx_nx ?U)) (ctx_x ?U)) (bitcount ?U)"
    by (rule same_state_digest [OF r(4)])
  also have "\<dots> = alg_final A (fst (absorb bs (alg_block A) (alg_iv A) (concat ps)))
                   (snd (absorb bs (alg_block A) (alg_iv A) (concat ps)))
                   ((8 * length (concat ps)) mod 2 ^ (2 * LENGTH('w)))"
    by (simp only: p1 p2 bU)
  finally show ?thesis
    by (simp add: sum_after_def w gen_sum_valid [OF r(1)])
qed

section \<open>Facts about the adapters after Reset\<close>

lemma sha1_Reset_ctx: "ctx (sha1_Reset A z) = prim_Init 64 A (ctx z)"
  by (simp add: sha1_Reset_def SHA1_Init_def)

lemma sha1_reached:
  assumes "writes (sha1_Write A) (sha1_Reset A z) ps = Some s"
  shows "counts_for 64 (length (concat ps)) (ctx s)"
  using reached_counts [OF sha1_Reset_ctx _ _ assms [unfolded sha1_Write_gen]] by simp

lemma sha1_reached_ex: "\<exists>s. writes (sha1_Write A) (sha1_Reset A z) ps = Some s"
  using reached_exists [OF sha1_Reset_ctx, where ps = ps] by (simp add: sha1_Write_gen)

lemma sha1_sum_after:
  "sum_after (sha1_Write A) (sha1_Sum A) (sha1_Reset A z) ps dst =
    Some (dst @ alg_final A (fst (absorb 64 (alg_block A) (alg_iv A) (concat ps)))
                   (snd (absorb 64 (alg_block A) (alg_iv A) (concat ps)))
                   ((8 * length (concat ps)) mod 2 ^ 64))"
  using sum_after_gen [OF sha1_Reset_ctx, where ps = ps and dst = dst]
  by (simp add: sha1_Write_gen sha1_Sum_gen)

lemma sha1_calls_same:
  assumes "same_state (ctx g) (ctx s)" "ctx_valid 64 (ctx s)"
  shows "calls (sha1_Write A) (sha1_Sum A) g cs = calls (sha1_Write A) (sha1_Sum A) s cs"
  using calls_same [OF assms, where A = A and cs = cs] by (simp add: sha1_Write_gen sha1_Sum_gen)

lemma sha224_Reset_ctx: "ctx (sha224_Reset A z) = prim_Init 64 A (ctx z)"
  by (simp add: sha224_Reset_def SHA224_Init_def)

lemma sha224_reached:
  assumes "writes (sha224_Write A) (sha224_Reset A z) ps = Some s"
  shows "counts_for 64 (length (concat ps)) (ctx s)"
  using reached_counts [OF sha224_Reset_ctx _ _ assms [unfolded sha224_Write_gen]] by simp

lemma sha224_reached_ex: "\<exists>s. writes (sha224_Write A) (sha224_Reset A z) ps = Some s"
  using reached_exists [OF sha224_Reset_ctx, where ps = ps] by (simp add: sha224_Write_gen)

lemma sha224_sum_after:
  "sum_after (sha224_Write A) (sha224_Sum A) (sha224_Reset A z) ps dst =
    Some (dst @ alg_final A (fst (absorb 64 (alg_block A) (alg_iv A) (concat ps)))
                   (snd (absorb 64 (alg_block A) (alg_iv A) (concat ps)))
                   ((8 * length (concat ps)) mod 2 ^ 64))"
  using sum_after_gen [OF sha224_Reset_ctx, where ps = ps and dst = dst]
  by (simp add: sha224_Write_gen sha224_Sum_gen)

lemma sha224_calls_same:
  assumes "same_state (ctx g) (ctx s)" "ctx_valid 64 (ctx s)"
  shows "calls (sha224_Write A) (sha224_Sum A) g cs = calls (sha224_Write A) (sha224_Sum A) s cs"
  using calls_same [OF assms, where A = A and cs = cs] by (simp add: sha224_Write_gen sha224_Sum_gen)

lemma sha256_Reset_ctx: "ctx (sha256_Reset A z) = prim_Init 64 A (ctx z)"
  by (simp add: sha256_Reset_def SHA256_Init_def)

lemma sha256_reached:
  assumes "writes (sha256_Write A) (sha256_Reset A z) ps = Some s"
  shows "counts_for 64 (length (concat ps)) (ctx s)"
  using reached_counts [OF sha256_Reset_ctx _ _ assms [unfolded sha256_Write_gen]] by simp

lemma sha256_reached_ex: "\<exists>s. writes (sha256_Write A) (sha256_Reset A z) ps = Some s"
  using reached_exists [OF sha256_Reset_ctx, where ps = ps] by (simp add: sha256_Write_gen)

lemma sha256_sum_after:
  "sum_after (sha256_Write A) (sha256_Sum A) (sha256_Reset A z) ps dst =
    Some (dst @ alg_final A (fst (absorb 64 (alg_block A) (alg_iv A) (concat ps)))
                   (snd (absorb 64 (alg_block A) (alg_iv A) (concat ps)))
                   ((8 * length (concat ps)) mod 2 ^ 64))"
  using sum_after_gen [OF sha256_Reset_ctx, where ps = ps and dst = dst]
  by (simp add: sha256_Write_gen sha256_Sum_gen)

lemma sha256_calls_same:
  assumes "same_state (ctx g) (ctx s)" "ctx_valid 64 (ctx s)"
  shows "calls (sha256_Write A) (sha256_Sum A) g cs = calls (sha256_Write A) (sha256_Sum A) s cs"
  using calls_same [OF assms, where A = A and cs = cs] by (simp add: sha256_Write_gen sha256_Sum_gen)

lemma sha384_Reset_ctx: "ctx (sha384_Reset A z) = prim_Init 128 A (ctx z)"
  by (simp add: sha384_Reset_def SHA384_Init_def)

lemma sha384_reached:
  assumes "writes (sha384_Write A) (sha384_Reset A z) ps = Some s"
  shows "counts_for 128 (length (concat ps)) (ctx s)"
  using reached_counts [OF sha384_Reset_ctx _ _ assms [unfolded sha384_Write_gen]] by simp

lemma sha384_reached_ex: "\<exists>s. writes (sha384_Write A) (sha384_Reset A z) ps = Some s"
  using reached_exists [OF sha384_Reset_ctx, where ps = ps] by (simp add: sha384_Write_gen)

lemma sha384_sum_after:
  "sum_after (sha384_Write A) (sha384_Sum A) (sha384_Reset A z) ps dst =
    Some (dst @ alg_final A (fst (absorb 128 (alg_block A) (alg_iv A) (concat ps)))
                   (snd (absorb 128 (alg_block A) (alg_iv A) (concat ps)))
                   ((8 * length (concat ps)) mod 2 ^ 128))"
  using sum_after_gen [OF sha384_Reset_ctx, where ps = ps and dst = dst]
  by (simp add: sha384_Write_gen sha384_Sum_gen)

lemma sha384_calls_same:
  assumes "same_state (ctx g) (ctx s)" "ctx_valid 128 (ctx s)"
  shows "calls (sha384_Write A) (sha384_Sum A) g cs = calls (sha384_Write A) (sha384_Sum A) s cs"
  using calls_same [OF assms, where A = A and cs = cs] by (simp add: sha384_Write_gen sha384_Sum_gen)

lemma sha512_Reset_ctx: "ctx (sha512_Reset A z) = prim_Init 128 A (ctx z)"
  by (simp add: sha512_Reset_def SHA512_Init_def)

lemma sha512_reached:
  assumes "writes (sha512_Write A) (sha512_Reset A z) ps = Some s"
  shows "counts_for 128 (length (concat ps)) (ctx s)"
  using reached_counts [OF sha512_Reset_ctx _ _ assms [unfolded sha512_Write_gen]] by simp

lemma sha512_reached_ex: "\<exists>s. writes (sha512_Write A) (sha512_Reset A z) ps = Some s"
  using reached_exists [OF sha512_Reset_ctx, where ps = ps] by (simp add: sha512_Write_gen)

lemma sha512_sum_after:
  "sum_after (sha512_Write A) (sha512_Sum A) (sha512_Reset A z) ps dst =
    Some (dst @ alg_final A (fst (absorb 128 (alg_block A) (alg_iv A) (concat ps)))
                   (snd (absorb 128 (alg_block A) (alg_iv A) (concat ps)))
                   ((8 * length (concat ps)) mod 2 ^ 128))"
  using sum_after_gen [OF sha512_Reset_ctx, where ps = ps and dst = dst]
  by (simp add: sha512_Write_gen sha512_Sum_gen)

lemma sha512_calls_same:
  assumes "same_state (ctx g) (ctx s)" "ctx_valid 128 (ctx s)"
  shows "calls (sha512_Write A) (sha512_Sum A) g cs = calls (sha512_Write A) (sha512_Sum A) s cs"
  using calls_same [OF assms, where A = A and cs = cs] by (simp add: sha512_Write_gen sha512_Sum_gen)

section \<open>More facts about the example contexts\<close>

lemma ex_sha1_counts: "counts_for 64 3 (ctx ex_sha1)"
  by (simp add: counts_for_def ctx_valid_def bitcount_def ex_sha1_def)

lemma ex_sha256_counts: "counts_for 64 3 (ctx ex_sha256)"
  by (simp add: counts_for_def ctx_valid_def bitcount_def ex_sha256_def)

lemma ex_sha512_counts: "counts_for 128 3 (ctx ex_sha512)"
  by (simp add: counts_for_def ctx_valid_def bitcount_def ex_sha512_def)

lemma sha1_ex_reached:
  "writes (sha1_Write demo5) (sha1_Reset demo5 ex_sha1) [[7, 8, 9]] = Some ex_sha1"
proof -
  have v: "ctx_valid 64 (ctx (sha1_Reset demo5 ex_sha1))"
    by (simp add: sha1_Reset_ctx valid_Init)
  have "sha1_Write demo5 (sha1_Reset demo5 ex_sha1) [7, 8, 9] = Some (ex_sha1, 3, None)"
    apply (simp only: sha1_Write_gen gen_Write_eq [OF v])
    apply (simp add: prim_Update_eq absorb_short sha1_Reset_def SHA1_Init_def prim_Init_def
        ex_sha1_def demo5_def bitcount_def)
    done
  then show ?thesis by simp
qed

lemma sha224_ex_reached:
  "writes (sha224_Write demo8) (sha224_Reset demo8 ex_sha256) [[7, 8, 9]] = Some ex_sha256"
proof -
  have v: "ctx_valid 64 (ctx (sha224_Reset demo8 ex_sha256))"
    by (simp add: sha224_Reset_ctx valid_Init)
  have "sha224_Write demo8 (sha224_Reset demo8 ex_sha256) [7, 8, 9] = Some (ex_sha256, 3, None)"
    apply (simp only: sha224_Write_gen gen_Write_eq [OF v])
    apply (simp add: prim_Update_eq absorb_short sha224_Reset_def SHA224_Init_def prim_Init_def
        ex_sha256_def demo8_def bitcount_def)
    done
  then show ?thesis by simp
qed

lemma sha256_ex_reached:
  "writes (sha256_Write demo8) (sha256_Reset demo8 ex_sha256) [[7, 8, 9]] = Some ex_sha256"
proof -
  have v: "ctx_valid 64 (ctx (sha256_Reset demo8 ex_sha256))"
    by (simp add: sha256_Reset_ctx valid_Init)
  have "sha256_Write demo8 (sha256_Reset demo8 ex_sha256) [7, 8, 9] = Some (ex_sha256, 3, None)"
    apply (simp only: sha256_Write_gen gen_Write_eq [OF v])
    apply (simp add: prim_Update_eq absorb_short sha256_Reset_def SHA256_Init_def prim_Init_def
        ex_sha256_def demo8_def bitcount_def)
    done
  then show ?thesis by simp
qed

lemma sha384_ex_reached:
  "writes (sha384_Write demo8l) (sha384_Reset demo8l ex_sha512) [[7, 8, 9]] = Some ex_sha512"
proof -
  have v: "ctx_valid 128 (ctx (sha384_Reset demo8l ex_sha512))"
    by (simp add: sha384_Reset_ctx valid_Init)
  have "sha384_Write demo8l (sha384_Reset demo8l ex_sha512) [7, 8, 9] = Some (ex_sha512, 3, None)"
    apply (simp only: sha384_Write_gen gen_Write_eq [OF v])
    apply (simp add: prim_Update_eq absorb_short sha384_Reset_def SHA384_Init_def prim_Init_def
        ex_sha512_def demo8l_def bitcount_def)
    done
  then show ?thesis by simp
qed

lemma sha512_ex_reached:
  "writes (sha512_Write demo8l) (sha512_Reset demo8l ex_sha512) [[7, 8, 9]] = Some ex_sha512"
proof -
  have v: "ctx_valid 128 (ctx (sha512_Reset demo8l ex_sha512))"
    by (simp add: sha512_Reset_ctx valid_Init)
  have "sha512_Write demo8l (sha512_Reset demo8l ex_sha512) [7, 8, 9] = Some (ex_sha512, 3, None)"
    apply (simp only: sha512_Write_gen gen_Write_eq [OF v])
    apply (simp add: prim_Update_eq absorb_short sha512_Reset_def SHA512_Init_def prim_Init_def
        ex_sha512_def demo8l_def bitcount_def)
    done
  then show ?thesis by simp
qed

section \<open>The properties of the specification\<close>

text \<open>
  C1, with the bound that the 64-bit-word variants need. For every context reached from
  Reset by a sequence of Write calls, and for SHA-384 and SHA-512 by writes of fewer than
  2^64 bytes in total, MarshalBinary returns no error, UnmarshalBinary of its output into any receiver returns no error, and the restored
  context is state-identical to the original: the same chaining values, counters, count of
  pending bytes and pending bytes. Every later sequence of Write and Sum calls returns the
  same on the restored adapter as on the original.
\<close>

theorem C1_roundtrip:
  assumes "writes (sha1_Write A1) (sha1_Reset A1 z1) ps = Some s1"
    and "length (ctx_x (ctx g1)) = 64"
    and "writes (sha224_Write A224) (sha224_Reset A224 z224) ps = Some s224"
    and "length (ctx_x (ctx g224)) = 64"
    and "writes (sha256_Write A256) (sha256_Reset A256 z256) ps = Some s256"
    and "length (ctx_x (ctx g256)) = 64"
    and "writes (sha384_Write A384) (sha384_Reset A384 z384) qs = Some s384"
    and "length (ctx_x (ctx g384)) = 128"
    and "writes (sha512_Write A512) (sha512_Reset A512 z512) qs = Some s512"
    and "length (ctx_x (ctx g512)) = 128"
    and "length (concat qs) < 2 ^ 64"
  shows "(\<exists>b g'. sha1_MarshalBinary s1 = Some (b, None) \<and>
        sha1_UnmarshalBinary g1 b = Some (g', None) \<and>
        same_state (ctx g') (ctx s1) \<and>
        (\<forall>cs. calls (sha1_Write A1) (sha1_Sum A1) g' cs =
              calls (sha1_Write A1) (sha1_Sum A1) s1 cs)) \<and>
    (\<exists>b g'. sha224_MarshalBinary s224 = Some (b, None) \<and>
        sha224_UnmarshalBinary g224 b = Some (g', None) \<and>
        same_state (ctx g') (ctx s224) \<and>
        (\<forall>cs. calls (sha224_Write A224) (sha224_Sum A224) g' cs =
              calls (sha224_Write A224) (sha224_Sum A224) s224 cs)) \<and>
    (\<exists>b g'. sha256_MarshalBinary s256 = Some (b, None) \<and>
        sha256_UnmarshalBinary g256 b = Some (g', None) \<and>
        same_state (ctx g') (ctx s256) \<and>
        (\<forall>cs. calls (sha256_Write A256) (sha256_Sum A256) g' cs =
              calls (sha256_Write A256) (sha256_Sum A256) s256 cs)) \<and>
    (\<exists>b g'. sha384_MarshalBinary s384 = Some (b, None) \<and>
        sha384_UnmarshalBinary g384 b = Some (g', None) \<and>
        same_state (ctx g') (ctx s384) \<and>
        (\<forall>cs. calls (sha384_Write A384) (sha384_Sum A384) g' cs =
              calls (sha384_Write A384) (sha384_Sum A384) s384 cs)) \<and>
    (\<exists>b g'. sha512_MarshalBinary s512 = Some (b, None) \<and>
        sha512_UnmarshalBinary g512 b = Some (g', None) \<and>
        same_state (ctx g') (ctx s512) \<and>
        (\<forall>cs. calls (sha512_Write A512) (sha512_Sum A512) g' cs =
              calls (sha512_Write A512) (sha512_Sum A512) s512 cs))"
proof -
  have sha1: "(\<exists>b g'. sha1_MarshalBinary s1 = Some (b, None) \<and>
        sha1_UnmarshalBinary g1 b = Some (g', None) \<and>
        same_state (ctx g') (ctx s1) \<and>
        (\<forall>cs. calls (sha1_Write A1) (sha1_Sum A1) g' cs =
              calls (sha1_Write A1) (sha1_Sum A1) s1 cs))"
  proof -
    note c = sha1_reached [OF assms(1)]
    then have v: "ctx_valid 64 (ctx s1)" by (simp add: counts_for_def)
    from sha1_restore [OF c assms(2)] obtain g' where
      U: "sha1_UnmarshalBinary g1
           (wire_format sha1Magic (words5 (ctx_h (ctx s1))) (ctx_x (ctx s1)) (unat (ctx_nx (ctx s1))) 64
              (drop_bit 3 (ucast (ctx_nl (ctx s1))) OR push_bit 29 (ucast (ctx_nh (ctx s1))))) = Some (g', None)"
      and S: "same_state (ctx g') (ctx s1)" by blast
    note M = sha1_Marshal_wire [OF v]
    have C: "\<forall>cs. calls (sha1_Write A1) (sha1_Sum A1) g' cs =
              calls (sha1_Write A1) (sha1_Sum A1) s1 cs"
      by (intro allI) (rule sha1_calls_same [OF S v])
    show ?thesis
      by (intro exI conjI) (rule M, rule U, rule S, rule C)
  qed
  have sha224: "(\<exists>b g'. sha224_MarshalBinary s224 = Some (b, None) \<and>
        sha224_UnmarshalBinary g224 b = Some (g', None) \<and>
        same_state (ctx g') (ctx s224) \<and>
        (\<forall>cs. calls (sha224_Write A224) (sha224_Sum A224) g' cs =
              calls (sha224_Write A224) (sha224_Sum A224) s224 cs))"
  proof -
    note c = sha224_reached [OF assms(3)]
    then have v: "ctx_valid 64 (ctx s224)" by (simp add: counts_for_def)
    from sha224_restore [OF c assms(4)] obtain g' where
      U: "sha224_UnmarshalBinary g224
           (wire_format magic224 (words8 (ctx_h (ctx s224))) (ctx_x (ctx s224)) (unat (ctx_nx (ctx s224))) 64
              (drop_bit 3 (ucast (ctx_nl (ctx s224))) OR push_bit 29 (ucast (ctx_nh (ctx s224))))) = Some (g', None)"
      and S: "same_state (ctx g') (ctx s224)" by blast
    note M = sha224_Marshal_wire [OF v]
    have C: "\<forall>cs. calls (sha224_Write A224) (sha224_Sum A224) g' cs =
              calls (sha224_Write A224) (sha224_Sum A224) s224 cs"
      by (intro allI) (rule sha224_calls_same [OF S v])
    show ?thesis
      by (intro exI conjI) (rule M, rule U, rule S, rule C)
  qed
  have sha256: "(\<exists>b g'. sha256_MarshalBinary s256 = Some (b, None) \<and>
        sha256_UnmarshalBinary g256 b = Some (g', None) \<and>
        same_state (ctx g') (ctx s256) \<and>
        (\<forall>cs. calls (sha256_Write A256) (sha256_Sum A256) g' cs =
              calls (sha256_Write A256) (sha256_Sum A256) s256 cs))"
  proof -
    note c = sha256_reached [OF assms(5)]
    then have v: "ctx_valid 64 (ctx s256)" by (simp add: counts_for_def)
    from sha256_restore [OF c assms(6)] obtain g' where
      U: "sha256_UnmarshalBinary g256
           (wire_format magic256 (words8 (ctx_h (ctx s256))) (ctx_x (ctx s256)) (unat (ctx_nx (ctx s256))) 64
              (drop_bit 3 (ucast (ctx_nl (ctx s256))) OR push_bit 29 (ucast (ctx_nh (ctx s256))))) = Some (g', None)"
      and S: "same_state (ctx g') (ctx s256)" by blast
    note M = sha256_Marshal_wire [OF v]
    have C: "\<forall>cs. calls (sha256_Write A256) (sha256_Sum A256) g' cs =
              calls (sha256_Write A256) (sha256_Sum A256) s256 cs"
      by (intro allI) (rule sha256_calls_same [OF S v])
    show ?thesis
      by (intro exI conjI) (rule M, rule U, rule S, rule C)
  qed
  have sha384: "(\<exists>b g'. sha384_MarshalBinary s384 = Some (b, None) \<and>
        sha384_UnmarshalBinary g384 b = Some (g', None) \<and>
        same_state (ctx g') (ctx s384) \<and>
        (\<forall>cs. calls (sha384_Write A384) (sha384_Sum A384) g' cs =
              calls (sha384_Write A384) (sha384_Sum A384) s384 cs))"
  proof -
    note c = sha384_reached [OF assms(7)]
    then have v: "ctx_valid 128 (ctx s384)" by (simp add: counts_for_def)
    from sha384_restore [OF c assms(11) assms(8)] obtain g' where
      U: "sha384_UnmarshalBinary g384
           (wire_format magic384 (words8l (ctx_h (ctx s384))) (ctx_x (ctx s384)) (unat (ctx_nx (ctx s384))) 128
              (drop_bit 3 (ctx_nl (ctx s384)) OR push_bit 61 (ctx_nh (ctx s384)))) = Some (g', None)"
      and S: "same_state (ctx g') (ctx s384)" by blast
    note M = sha384_Marshal_wire [OF v]
    have C: "\<forall>cs. calls (sha384_Write A384) (sha384_Sum A384) g' cs =
              calls (sha384_Write A384) (sha384_Sum A384) s384 cs"
      by (intro allI) (rule sha384_calls_same [OF S v])
    show ?thesis
      by (intro exI conjI) (rule M, rule U, rule S, rule C)
  qed
  have sha512: "(\<exists>b g'. sha512_MarshalBinary s512 = Some (b, None) \<and>
        sha512_UnmarshalBinary g512 b = Some (g', None) \<and>
        same_state (ctx g') (ctx s512) \<and>
        (\<forall>cs. calls (sha512_Write A512) (sha512_Sum A512) g' cs =
              calls (sha512_Write A512) (sha512_Sum A512) s512 cs))"
  proof -
    note c = sha512_reached [OF assms(9)]
    then have v: "ctx_valid 128 (ctx s512)" by (simp add: counts_for_def)
    from sha512_restore [OF c assms(11) assms(10)] obtain g' where
      U: "sha512_UnmarshalBinary g512
           (wire_format magic512 (words8l (ctx_h (ctx s512))) (ctx_x (ctx s512)) (unat (ctx_nx (ctx s512))) 128
              (drop_bit 3 (ctx_nl (ctx s512)) OR push_bit 61 (ctx_nh (ctx s512)))) = Some (g', None)"
      and S: "same_state (ctx g') (ctx s512)" by blast
    note M = sha512_Marshal_wire [OF v]
    have C: "\<forall>cs. calls (sha512_Write A512) (sha512_Sum A512) g' cs =
              calls (sha512_Write A512) (sha512_Sum A512) s512 cs"
      by (intro allI) (rule sha512_calls_same [OF S v])
    show ?thesis
      by (intro exI conjI) (rule M, rule U, rule S, rule C)
  qed
  show ?thesis
    by (rule conjI [OF sha1 conjI [OF sha224 conjI [OF sha256 conjI [OF sha384 sha512]]]])
qed

theorem C1_roundtrip_witness:
  "writes (sha1_Write demo5) (sha1_Reset demo5 ex_sha1) [[7, 8, 9]] = Some ex_sha1 \<and>
    writes (sha224_Write demo8) (sha224_Reset demo8 ex_sha256) [[7, 8, 9]] = Some ex_sha256 \<and>
    writes (sha256_Write demo8) (sha256_Reset demo8 ex_sha256) [[7, 8, 9]] = Some ex_sha256 \<and>
    writes (sha384_Write demo8l) (sha384_Reset demo8l ex_sha512) [[7, 8, 9]] = Some ex_sha512 \<and>
    writes (sha512_Write demo8l) (sha512_Reset demo8l ex_sha512) [[7, 8, 9]] = Some ex_sha512 \<and>
    length (concat [[7, 8, 9 :: byte]]) < 2 ^ 64 \<and>
    (\<exists>b g'. sha1_MarshalBinary ex_sha1 = Some (b, None) \<and>
        sha1_UnmarshalBinary ex_sha1 b = Some (g', None) \<and>
        same_state (ctx g') (ctx ex_sha1) \<and>
        (\<forall>cs. calls (sha1_Write demo5) (sha1_Sum demo5) g' cs =
              calls (sha1_Write demo5) (sha1_Sum demo5) ex_sha1 cs)) \<and>
    (\<exists>b g'. sha224_MarshalBinary ex_sha256 = Some (b, None) \<and>
        sha224_UnmarshalBinary ex_sha256 b = Some (g', None) \<and>
        same_state (ctx g') (ctx ex_sha256) \<and>
        (\<forall>cs. calls (sha224_Write demo8) (sha224_Sum demo8) g' cs =
              calls (sha224_Write demo8) (sha224_Sum demo8) ex_sha256 cs)) \<and>
    (\<exists>b g'. sha256_MarshalBinary ex_sha256 = Some (b, None) \<and>
        sha256_UnmarshalBinary ex_sha256 b = Some (g', None) \<and>
        same_state (ctx g') (ctx ex_sha256) \<and>
        (\<forall>cs. calls (sha256_Write demo8) (sha256_Sum demo8) g' cs =
              calls (sha256_Write demo8) (sha256_Sum demo8) ex_sha256 cs)) \<and>
    (\<exists>b g'. sha384_MarshalBinary ex_sha512 = Some (b, None) \<and>
        sha384_UnmarshalBinary ex_sha512 b = Some (g', None) \<and>
        same_state (ctx g') (ctx ex_sha512) \<and>
        (\<forall>cs. calls (sha384_Write demo8l) (sha384_Sum demo8l) g' cs =
              calls (sha384_Write demo8l) (sha384_Sum demo8l) ex_sha512 cs)) \<and>
    (\<exists>b g'. sha512_MarshalBinary ex_sha512 = Some (b, None) \<and>
        sha512_UnmarshalBinary ex_sha512 b = Some (g', None) \<and>
        same_state (ctx g') (ctx ex_sha512) \<and>
        (\<forall>cs. calls (sha512_Write demo8l) (sha512_Sum demo8l) g' cs =
              calls (sha512_Write demo8l) (sha512_Sum demo8l) ex_sha512 cs))"
proof -
  have L: "length (concat [[7, 8, 9 :: byte]]) < 2 ^ 64" by simp
  note inst = C1_roundtrip [OF sha1_ex_reached ex_sha1_len sha224_ex_reached ex_sha256_len
      sha256_ex_reached ex_sha256_len sha384_ex_reached ex_sha512_len sha512_ex_reached ex_sha512_len L]
  show ?thesis
    by (rule conjI [OF sha1_ex_reached conjI [OF sha224_ex_reached conjI [OF sha256_ex_reached
      conjI [OF sha384_ex_reached conjI [OF sha512_ex_reached conjI [OF L inst]]]]]])
qed

text \<open>
  C1 without the bound fails for the 64-bit-word variants: the length field keeps 64 bits
  of the byte count, the two counters hold 125. After 2^34 writes of 2^30 zero bytes each
  (2^64 bytes in total) to a new SHA-512 adapter, MarshalBinary and UnmarshalBinary return
  no error, but the original holds \<open>nh = 8\<close> and the restored context \<open>nh = 0\<close>, and
  Sum returns different bytes on the two.
\<close>

theorem C1_roundtrip_counterexample:
  "case writes (sha512_Write demo8l) (NewSHA512 demo8l) (replicate (2 ^ 34) (replicate (2 ^ 30) 0)) of
     None \<Rightarrow> False
   | Some s \<Rightarrow>
       (case sha512_MarshalBinary s of
          None \<Rightarrow> False
        | Some (b, e) \<Rightarrow>
            (case sha512_UnmarshalBinary (NewSHA512 demo8l) b of
               None \<Rightarrow> False
             | Some (g, e') \<Rightarrow>
                 e = None \<and> e' = None \<and> ctx_nh (ctx s) = 8 \<and> ctx_nh (ctx g) = 0 \<and>
                 \<not> same_state (ctx g) (ctx s) \<and>
                 sha512_Sum demo8l g [] \<noteq> sha512_Sum demo8l s []))"
proof -
  let ?ps = "replicate (2 ^ 34) (replicate (2 ^ 30) (0 :: byte))"
  let ?new = "sha512_Reset demo8l sha512_zero"
  have new: "NewSHA512 demo8l = ?new"
    by (simp add: NewSHA512_def)
  from sha512_reached_ex [of demo8l sha512_zero ?ps] obtain s where
    w: "writes (sha512_Write demo8l) (sha512_Reset demo8l sha512_zero) ?ps = Some s" by blast
  have total: "length (concat ?ps) = 2 ^ 64"
    by (simp add: length_concat sum_list_replicate)
  from sha512_reached [OF w] have c: "counts_for 128 (2 ^ 64) (ctx s)"
    by (simp only: total)
  then have v: "ctx_valid 128 (ctx s)"
    and b: "bitcount (ctx s) = 2 ^ 67"
    and "unat (ctx_nx (ctx s)) = 0"
    by (simp_all add: counts_for_def)
  then have nx: "ctx_nx (ctx s) = 0"
    by (simp add: unat_eq_0)
  have "unat (ctx_nh (ctx s)) = 8"
    by (simp add: unat_nh_bitcount b)
  then have nh: "ctx_nh (ctx s) = 8"
    by (simp add: word_unat_eq_iff)
  have "unat (ctx_nl (ctx s)) = 0"
    by (simp add: unat_nl_bitcount b)
  then have nl: "ctx_nl (ctx s) = 0"
    by (simp add: unat_eq_0)
  from v have lx: "length (ctx_x (ctx s)) = 128"
    by (simp add: ctx_valid_def)
  obtain h0 h1 h2 h3 h4 h5 h6 h7 where hv: "ctx_h (ctx s) = (h0, h1, h2, h3, h4, h5, h6, h7)"
    by (metis tuple8_ex)
  have field: "drop_bit 3 (ctx_nl (ctx s)) OR push_bit 61 (ctx_nh (ctx s)) = 0"
    by (simp add: nl nh)
  let ?b = "wire_format magic512 (words8l (ctx_h (ctx s))) (ctx_x (ctx s)) (unat (ctx_nx (ctx s))) 128 0"
  have M: "sha512_MarshalBinary s = Some (?b, None)"
    using sha512_Marshal_wire [OF v] by (simp only: field)
  have lnew: "length (ctx_x (ctx ?new)) = 128"
    by (simp add: sha512_Reset_ctx prim_Init_def)
  let ?g = "?new\<lparr>ctx := (ctx ?new)\<lparr>ctx_h := (h0, h1, h2, h3, h4, h5, h6, h7),
      ctx_x := replicate 128 0, ctx_nl := 0, ctx_nh := 0, ctx_nx := 0\<rparr>\<rparr>"
  have U: "sha512_UnmarshalBinary ?new ?b = Some (?g, None)"
    using sha512_Unmarshal_layout [OF lnew, of "replicate 128 0" h0 h1 h2 h3 h4 h5 h6 h7 0]
    by (simp add: wire_format_def words8l_def hv nx)
  have vg: "ctx_valid 128 (ctx ?g)"
    by (simp add: ctx_valid_def)
  have ns: "\<not> same_state (ctx ?g) (ctx s)"
    by (simp add: same_state_def nh)
  have bg: "bitcount (ctx ?g) = 0"
    by (simp add: bitcount_def)
  have dg: "sha512_Sum demo8l ?g [] =
      Some (?g, alg_final demo8l (h0, h1, h2, h3, h4, h5, h6, h7) [] 0)"
    by (simp only: sha512_Sum_gen gen_sum_valid [OF vg] bg) simp
  have ds: "sha512_Sum demo8l s [] =
      Some (s, alg_final demo8l (h0, h1, h2, h3, h4, h5, h6, h7) [] (2 ^ 67))"
    by (simp only: sha512_Sum_gen gen_sum_valid [OF v] b hv nx) simp
  have "alg_final demo8l (h0, h1, h2, h3, h4, h5, h6, h7) [] 0 \<noteq>
      alg_final demo8l (h0, h1, h2, h3, h4, h5, h6, h7) [] (2 ^ 67)"
    by (simp add: demo8l_def be64_def)
  then have "sha512_Sum demo8l ?g [] \<noteq> sha512_Sum demo8l s []"
    by (simp only: dg ds) simp
  then show ?thesis
    using ns nh
    by (simp only: new w M U option.case prod.case) simp
qed

text \<open>
  C2. For every HashContext (a context whose buffer has the block size and whose count of
  pending bytes is below it), MarshalBinary is a function of the context, returns no error,
  and its output is the wire format: the variant's 4-byte magic tag, the chaining values as
  big-endian words (5 of 4 bytes for SHA-1, 8 of 4 bytes for SHA-224 and SHA-256, 8 of 8
  bytes for SHA-384 and SHA-512), the valid bytes of the pending buffer followed by zeros
  up to the block size (64 or 128), and the packed total length as 8 big-endian bytes. The
  output has 96 bytes for SHA-1, 108 for SHA-224 and SHA-256, 204 for SHA-384 and SHA-512.
\<close>

theorem C2_marshal_wire_format:
  assumes "ctx_valid 64 (ctx s1)"
    and "ctx_valid 64 (ctx s224)"
    and "ctx_valid 64 (ctx s256)"
    and "ctx_valid 128 (ctx s384)"
    and "ctx_valid 128 (ctx s512)"
  shows "sha1_MarshalBinary s1 =
       Some (wire_format sha1Magic (words5 (ctx_h (ctx s1))) (ctx_x (ctx s1)) (unat (ctx_nx (ctx s1))) 64
            (drop_bit 3 (ucast (ctx_nl (ctx s1))) OR push_bit 29 (ucast (ctx_nh (ctx s1)))), None)
    \<and> length (wire_format sha1Magic (words5 (ctx_h (ctx s1))) (ctx_x (ctx s1)) (unat (ctx_nx (ctx s1))) 64
            (drop_bit 3 (ucast (ctx_nl (ctx s1))) OR push_bit 29 (ucast (ctx_nh (ctx s1))))) = 96
    \<and> sha224_MarshalBinary s224 =
       Some (wire_format magic224 (words8 (ctx_h (ctx s224))) (ctx_x (ctx s224)) (unat (ctx_nx (ctx s224))) 64
            (drop_bit 3 (ucast (ctx_nl (ctx s224))) OR push_bit 29 (ucast (ctx_nh (ctx s224)))), None)
    \<and> length (wire_format magic224 (words8 (ctx_h (ctx s224))) (ctx_x (ctx s224)) (unat (ctx_nx (ctx s224))) 64
            (drop_bit 3 (ucast (ctx_nl (ctx s224))) OR push_bit 29 (ucast (ctx_nh (ctx s224))))) = 108
    \<and> sha256_MarshalBinary s256 =
       Some (wire_format magic256 (words8 (ctx_h (ctx s256))) (ctx_x (ctx s256)) (unat (ctx_nx (ctx s256))) 64
            (drop_bit 3 (ucast (ctx_nl (ctx s256))) OR push_bit 29 (ucast (ctx_nh (ctx s256)))), None)
    \<and> length (wire_format magic256 (words8 (ctx_h (ctx s256))) (ctx_x (ctx s256)) (unat (ctx_nx (ctx s256))) 64
            (drop_bit 3 (ucast (ctx_nl (ctx s256))) OR push_bit 29 (ucast (ctx_nh (ctx s256))))) = 108
    \<and> sha384_MarshalBinary s384 =
       Some (wire_format magic384 (words8l (ctx_h (ctx s384))) (ctx_x (ctx s384)) (unat (ctx_nx (ctx s384))) 128
            (drop_bit 3 (ctx_nl (ctx s384)) OR push_bit 61 (ctx_nh (ctx s384))), None)
    \<and> length (wire_format magic384 (words8l (ctx_h (ctx s384))) (ctx_x (ctx s384)) (unat (ctx_nx (ctx s384))) 128
            (drop_bit 3 (ctx_nl (ctx s384)) OR push_bit 61 (ctx_nh (ctx s384)))) = 204
    \<and> sha512_MarshalBinary s512 =
       Some (wire_format magic512 (words8l (ctx_h (ctx s512))) (ctx_x (ctx s512)) (unat (ctx_nx (ctx s512))) 128
            (drop_bit 3 (ctx_nl (ctx s512)) OR push_bit 61 (ctx_nh (ctx s512))), None)
    \<and> length (wire_format magic512 (words8l (ctx_h (ctx s512))) (ctx_x (ctx s512)) (unat (ctx_nx (ctx s512))) 128
            (drop_bit 3 (ctx_nl (ctx s512)) OR push_bit 61 (ctx_nh (ctx s512)))) = 204
    \<and> sha1MarshaledSize = 96 \<and> marshaledSize256 = 108 \<and> marshaledSize512 = 204
    \<and> length sha1Magic = 4 \<and> length magic224 = 4 \<and> length magic256 = 4 \<and> length magic384 = 4 \<and> length magic512 = 4"
  using sha1_Marshal_wire [OF assms(1)] sha1_wire_length [OF assms(1)] sha224_Marshal_wire [OF assms(2)] sha224_wire_length [OF assms(2)] sha256_Marshal_wire [OF assms(3)] sha256_wire_length [OF assms(3)] sha384_Marshal_wire [OF assms(4)] sha384_wire_length [OF assms(4)] sha512_Marshal_wire [OF assms(5)] sha512_wire_length [OF assms(5)]
  by (simp add: sha1MarshaledSize_def marshaledSize256_def marshaledSize512_def
      length_sha1Magic length_magic224 length_magic256 length_magic384 length_magic512)

theorem C2_marshal_wire_format_witness:
  "ctx_valid 64 (ctx ex_sha1) \<and> ctx_valid 64 (ctx ex_sha256) \<and> ctx_valid 128 (ctx ex_sha512) \<and>
    sha1_MarshalBinary ex_sha1 =
       Some ([0x73, 0x68, 0x61, 1] @ [0, 0, 0, 1, 0, 0, 0, 2, 0, 0, 0, 3, 0, 0, 0, 4, 0, 0, 0, 5] @ [7, 8, 9] @ replicate 61 0 @
          [0, 0, 0, 0, 0, 0, 0, 3], None) \<and>
    sha224_MarshalBinary ex_sha256 =
       Some ([0x73, 0x68, 0x61, 2] @ [0, 0, 0, 1, 0, 0, 0, 2, 0, 0, 0, 3, 0, 0, 0, 4, 0, 0, 0, 5, 0, 0, 0, 6, 0, 0, 0, 7, 0, 0, 0, 8] @ [7, 8, 9] @ replicate 61 0 @
          [0, 0, 0, 0, 0, 0, 0, 3], None) \<and>
    sha256_MarshalBinary ex_sha256 =
       Some ([0x73, 0x68, 0x61, 3] @ [0, 0, 0, 1, 0, 0, 0, 2, 0, 0, 0, 3, 0, 0, 0, 4, 0, 0, 0, 5, 0, 0, 0, 6, 0, 0, 0, 7, 0, 0, 0, 8] @ [7, 8, 9] @ replicate 61 0 @
          [0, 0, 0, 0, 0, 0, 0, 3], None) \<and>
    sha384_MarshalBinary ex_sha512 =
       Some ([0x73, 0x68, 0x61, 4] @ [0, 0, 0, 0, 0, 0, 0, 1, 0, 0, 0, 0, 0, 0, 0, 2, 0, 0, 0, 0, 0, 0, 0, 3, 0, 0, 0, 0, 0, 0, 0, 4, 0, 0, 0, 0, 0, 0, 0, 5, 0, 0, 0, 0, 0, 0, 0, 6, 0, 0, 0, 0, 0, 0, 0, 7, 0, 0, 0, 0, 0, 0, 0, 8] @ [7, 8, 9] @ replicate 125 0 @
          [0, 0, 0, 0, 0, 0, 0, 3], None) \<and>
    sha512_MarshalBinary ex_sha512 =
       Some ([0x73, 0x68, 0x61, 7] @ [0, 0, 0, 0, 0, 0, 0, 1, 0, 0, 0, 0, 0, 0, 0, 2, 0, 0, 0, 0, 0, 0, 0, 3, 0, 0, 0, 0, 0, 0, 0, 4, 0, 0, 0, 0, 0, 0, 0, 5, 0, 0, 0, 0, 0, 0, 0, 6, 0, 0, 0, 0, 0, 0, 0, 7, 0, 0, 0, 0, 0, 0, 0, 8] @ [7, 8, 9] @ replicate 125 0 @
          [0, 0, 0, 0, 0, 0, 0, 3], None)"
  using C2_marshal_wire_format [OF ex_sha1_valid ex_sha256_valid ex_sha256_valid ex_sha512_valid ex_sha512_valid]
    ex_sha1_valid ex_sha256_valid ex_sha512_valid
  by (simp add: ex_sha1_def ex_sha256_def ex_sha512_def wire_format_def words5_def words8_def
      words8l_def be32_def be64_def sha1Magic_def magic224_def magic256_def magic384_def magic512_def)

text \<open>
  C3. For every variant and every byte string \<open>b\<close>, UnmarshalBinary does not panic and
  returns the "invalid hash state identifier" error exactly when \<open>b\<close> has fewer than 4
  bytes or its first 4 bytes are not the variant's magic tag; otherwise it returns the
  "invalid hash state size" error exactly when the length of \<open>b\<close> is not the variant's
  marshaled size; otherwise it returns no error. The two errors are different values.
  The receivers are any adapters whose buffer arrays have their declared size.
\<close>

theorem C3_unmarshal_errors:
  assumes "length (ctx_x (ctx s1)) = 64"
    and "length (ctx_x (ctx s224)) = 64"
    and "length (ctx_x (ctx s256)) = 64"
    and "length (ctx_x (ctx s384)) = 128"
    and "length (ctx_x (ctx s512)) = 128"
  shows "map_option snd (sha1_UnmarshalBinary s1 b) =
       Some (if length b < 4 \<or> take 4 b \<noteq> sha1Magic
             then Some ''crypto/sha1: invalid hash state identifier''
             else if length b \<noteq> sha1MarshaledSize then Some ''crypto/sha1: invalid hash state size''
             else None) \<and>
    map_option snd (sha224_UnmarshalBinary s224 b) =
       Some (if length b < 4 \<or> take 4 b \<noteq> magic224
             then Some ''crypto/sha256: invalid hash state identifier''
             else if length b \<noteq> marshaledSize256 then Some ''crypto/sha256: invalid hash state size''
             else None) \<and>
    map_option snd (sha256_UnmarshalBinary s256 b) =
       Some (if length b < 4 \<or> take 4 b \<noteq> magic256
             then Some ''crypto/sha256: invalid hash state identifier''
             else if length b \<noteq> marshaledSize256 then Some ''crypto/sha256: invalid hash state size''
             else None) \<and>
    map_option snd (sha384_UnmarshalBinary s384 b) =
       Some (if length b < 4 \<or> take 4 b \<noteq> magic384
             then Some ''crypto/sha512: invalid hash state identifier''
             else if length b \<noteq> marshaledSize512 then Some ''crypto/sha512: invalid hash state size''
             else None) \<and>
    map_option snd (sha512_UnmarshalBinary s512 b) =
       Some (if length b < 4 \<or> take 4 b \<noteq> magic512
             then Some ''crypto/sha512: invalid hash state identifier''
             else if length b \<noteq> marshaledSize512 then Some ''crypto/sha512: invalid hash state size''
             else None) \<and>
    ''crypto/sha1: invalid hash state identifier'' \<noteq> ''crypto/sha1: invalid hash state size'' \<and>
    ''crypto/sha256: invalid hash state identifier'' \<noteq> ''crypto/sha256: invalid hash state size'' \<and>
    ''crypto/sha512: invalid hash state identifier'' \<noteq> ''crypto/sha512: invalid hash state size''"
  by (intro conjI sha1_Unmarshal_errors [OF assms(1)] sha224_Unmarshal_errors [OF assms(2)] sha256_Unmarshal_errors [OF assms(3)] sha384_Unmarshal_errors [OF assms(4)] sha512_Unmarshal_errors [OF assms(5)])
    simp_all

theorem C3_unmarshal_errors_witness:
  "length (ctx_x (ctx ex_sha1)) = 64 \<and>
    length (ctx_x (ctx ex_sha256)) = 64 \<and>
    length (ctx_x (ctx ex_sha512)) = 128 \<and>
    map_option snd (sha1_UnmarshalBinary ex_sha1 [0x73, 0x68, 0x61, 1, 5]) =
       Some (Some ''crypto/sha1: invalid hash state size'') \<and>
    map_option snd (sha224_UnmarshalBinary ex_sha256 [0x73, 0x68, 0x61, 1, 5]) =
       Some (Some ''crypto/sha256: invalid hash state identifier'') \<and>
    map_option snd (sha256_UnmarshalBinary ex_sha256 [0x73, 0x68, 0x61, 1, 5]) =
       Some (Some ''crypto/sha256: invalid hash state identifier'') \<and>
    map_option snd (sha384_UnmarshalBinary ex_sha512 [0x73, 0x68, 0x61, 1, 5]) =
       Some (Some ''crypto/sha512: invalid hash state identifier'') \<and>
    map_option snd (sha512_UnmarshalBinary ex_sha512 [0x73, 0x68, 0x61, 1, 5]) =
       Some (Some ''crypto/sha512: invalid hash state identifier'')"
  using C3_unmarshal_errors [OF ex_sha1_len ex_sha256_len ex_sha256_len ex_sha512_len ex_sha512_len, of "[0x73, 0x68, 0x61, 1, 5]"]
    ex_sha1_len ex_sha256_len ex_sha512_len
  by (simp add: sha1Magic_def magic224_def magic256_def magic384_def magic512_def
      sha1MarshaledSize_def)

text \<open>
  C4. The packing of the total-length field is exactly invertible. Take any context whose
  counters and count of pending bytes are those of a stream of \<open>L\<close> bytes, with \<open>L\<close> below
  2^61. For the 32-bit-word variants MarshalBinary stores \<open>(nl >> 3) | (nh << 29)\<close> over 64
  bits in the last 8 bytes, for the 64-bit-word variants \<open>(nl >> 3) | (nh << 61)\<close>; the
  stored value is \<open>L\<close>; and UnmarshalBinary of the marshaled bytes, into any receiver,
  recovers the original \<open>nl\<close>, \<open>nh\<close> and count of pending bytes.
\<close>

theorem C4_length_field_invertible:
  assumes "L < 2 ^ 61"
    and "counts_for 64 L (ctx s1)" and "length (ctx_x (ctx g1)) = 64"
    and "counts_for 64 L (ctx s224)" and "length (ctx_x (ctx g224)) = 64"
    and "counts_for 64 L (ctx s256)" and "length (ctx_x (ctx g256)) = 64"
    and "counts_for 128 L (ctx s384)" and "length (ctx_x (ctx g384)) = 128"
    and "counts_for 128 L (ctx s512)" and "length (ctx_x (ctx g512)) = 128"
  shows "(\<exists>b g'. sha1_MarshalBinary s1 = Some (b, None) \<and>
        drop (sha1MarshaledSize - 8) b = be64 (drop_bit 3 (ucast (ctx_nl (ctx s1))) OR push_bit 29 (ucast (ctx_nh (ctx s1)))) \<and>
        (drop_bit 3 (ucast (ctx_nl (ctx s1))) OR push_bit 29 (ucast (ctx_nh (ctx s1))) :: uint64) = of_nat L \<and>
        sha1_UnmarshalBinary g1 b = Some (g', None) \<and>
        ctx_nl (ctx g') = ctx_nl (ctx s1) \<and> ctx_nh (ctx g') = ctx_nh (ctx s1) \<and>
        ctx_nx (ctx g') = ctx_nx (ctx s1)) \<and>
    (\<exists>b g'. sha224_MarshalBinary s224 = Some (b, None) \<and>
        drop (marshaledSize256 - 8) b = be64 (drop_bit 3 (ucast (ctx_nl (ctx s224))) OR push_bit 29 (ucast (ctx_nh (ctx s224)))) \<and>
        (drop_bit 3 (ucast (ctx_nl (ctx s224))) OR push_bit 29 (ucast (ctx_nh (ctx s224))) :: uint64) = of_nat L \<and>
        sha224_UnmarshalBinary g224 b = Some (g', None) \<and>
        ctx_nl (ctx g') = ctx_nl (ctx s224) \<and> ctx_nh (ctx g') = ctx_nh (ctx s224) \<and>
        ctx_nx (ctx g') = ctx_nx (ctx s224)) \<and>
    (\<exists>b g'. sha256_MarshalBinary s256 = Some (b, None) \<and>
        drop (marshaledSize256 - 8) b = be64 (drop_bit 3 (ucast (ctx_nl (ctx s256))) OR push_bit 29 (ucast (ctx_nh (ctx s256)))) \<and>
        (drop_bit 3 (ucast (ctx_nl (ctx s256))) OR push_bit 29 (ucast (ctx_nh (ctx s256))) :: uint64) = of_nat L \<and>
        sha256_UnmarshalBinary g256 b = Some (g', None) \<and>
        ctx_nl (ctx g') = ctx_nl (ctx s256) \<and> ctx_nh (ctx g') = ctx_nh (ctx s256) \<and>
        ctx_nx (ctx g') = ctx_nx (ctx s256)) \<and>
    (\<exists>b g'. sha384_MarshalBinary s384 = Some (b, None) \<and>
        drop (marshaledSize512 - 8) b = be64 (drop_bit 3 (ctx_nl (ctx s384)) OR push_bit 61 (ctx_nh (ctx s384))) \<and>
        (drop_bit 3 (ctx_nl (ctx s384)) OR push_bit 61 (ctx_nh (ctx s384)) :: uint64) = of_nat L \<and>
        sha384_UnmarshalBinary g384 b = Some (g', None) \<and>
        ctx_nl (ctx g') = ctx_nl (ctx s384) \<and> ctx_nh (ctx g') = ctx_nh (ctx s384) \<and>
        ctx_nx (ctx g') = ctx_nx (ctx s384)) \<and>
    (\<exists>b g'. sha512_MarshalBinary s512 = Some (b, None) \<and>
        drop (marshaledSize512 - 8) b = be64 (drop_bit 3 (ctx_nl (ctx s512)) OR push_bit 61 (ctx_nh (ctx s512))) \<and>
        (drop_bit 3 (ctx_nl (ctx s512)) OR push_bit 61 (ctx_nh (ctx s512)) :: uint64) = of_nat L \<and>
        sha512_UnmarshalBinary g512 b = Some (g', None) \<and>
        ctx_nl (ctx g') = ctx_nl (ctx s512) \<and> ctx_nh (ctx g') = ctx_nh (ctx s512) \<and>
        ctx_nx (ctx g') = ctx_nx (ctx s512))"
proof -
  from assms(1) have L64: "L < 2 ^ 64" by simp
  have sha1: "(\<exists>b g'. sha1_MarshalBinary s1 = Some (b, None) \<and>
        drop (sha1MarshaledSize - 8) b = be64 (drop_bit 3 (ucast (ctx_nl (ctx s1))) OR push_bit 29 (ucast (ctx_nh (ctx s1)))) \<and>
        (drop_bit 3 (ucast (ctx_nl (ctx s1))) OR push_bit 29 (ucast (ctx_nh (ctx s1))) :: uint64) = of_nat L \<and>
        sha1_UnmarshalBinary g1 b = Some (g', None) \<and>
        ctx_nl (ctx g') = ctx_nl (ctx s1) \<and> ctx_nh (ctx g') = ctx_nh (ctx s1) \<and>
        ctx_nx (ctx g') = ctx_nx (ctx s1))"
  proof -
    from assms(2) have v: "ctx_valid 64 (ctx s1)" by (simp add: counts_for_def)
    from sha1_restore [OF assms(2) assms(3)] obtain g' where g': "sha1_UnmarshalBinary g1
           (wire_format sha1Magic (words5 (ctx_h (ctx s1))) (ctx_x (ctx s1)) (unat (ctx_nx (ctx s1))) 64
              (drop_bit 3 (ucast (ctx_nl (ctx s1))) OR push_bit 29 (ucast (ctx_nh (ctx s1))))) = Some (g', None)"
      and s: "same_state (ctx g') (ctx s1)" by blast
    have d: "drop (sha1MarshaledSize - 8) (wire_format sha1Magic (words5 (ctx_h (ctx s1))) (ctx_x (ctx s1)) (unat (ctx_nx (ctx s1))) 64
              (drop_bit 3 (ucast (ctx_nl (ctx s1))) OR push_bit 29 (ucast (ctx_nh (ctx s1)))))
        = be64 (drop_bit 3 (ucast (ctx_nl (ctx s1))) OR push_bit 29 (ucast (ctx_nh (ctx s1))))"
      using v drop_wire_format [of "unat (ctx_nx (ctx s1))" "ctx_x (ctx s1)" 64 sha1Magic "words5 (ctx_h (ctx s1))"]
      by (simp add: ctx_valid_def sha1MarshaledSize_def length_sha1Magic length_sha1Magic length_concat_words5)
    show ?thesis
      using sha1_Marshal_wire [OF v] g' s d counts32_field [OF assms(2) assms(1)]
      by (simp add: same_state_def)
  qed
  have sha224: "(\<exists>b g'. sha224_MarshalBinary s224 = Some (b, None) \<and>
        drop (marshaledSize256 - 8) b = be64 (drop_bit 3 (ucast (ctx_nl (ctx s224))) OR push_bit 29 (ucast (ctx_nh (ctx s224)))) \<and>
        (drop_bit 3 (ucast (ctx_nl (ctx s224))) OR push_bit 29 (ucast (ctx_nh (ctx s224))) :: uint64) = of_nat L \<and>
        sha224_UnmarshalBinary g224 b = Some (g', None) \<and>
        ctx_nl (ctx g') = ctx_nl (ctx s224) \<and> ctx_nh (ctx g') = ctx_nh (ctx s224) \<and>
        ctx_nx (ctx g') = ctx_nx (ctx s224))"
  proof -
    from assms(4) have v: "ctx_valid 64 (ctx s224)" by (simp add: counts_for_def)
    from sha224_restore [OF assms(4) assms(5)] obtain g' where g': "sha224_UnmarshalBinary g224
           (wire_format magic224 (words8 (ctx_h (ctx s224))) (ctx_x (ctx s224)) (unat (ctx_nx (ctx s224))) 64
              (drop_bit 3 (ucast (ctx_nl (ctx s224))) OR push_bit 29 (ucast (ctx_nh (ctx s224))))) = Some (g', None)"
      and s: "same_state (ctx g') (ctx s224)" by blast
    have d: "drop (marshaledSize256 - 8) (wire_format magic224 (words8 (ctx_h (ctx s224))) (ctx_x (ctx s224)) (unat (ctx_nx (ctx s224))) 64
              (drop_bit 3 (ucast (ctx_nl (ctx s224))) OR push_bit 29 (ucast (ctx_nh (ctx s224)))))
        = be64 (drop_bit 3 (ucast (ctx_nl (ctx s224))) OR push_bit 29 (ucast (ctx_nh (ctx s224))))"
      using v drop_wire_format [of "unat (ctx_nx (ctx s224))" "ctx_x (ctx s224)" 64 magic224 "words8 (ctx_h (ctx s224))"]
      by (simp add: ctx_valid_def marshaledSize256_def length_magic256 length_magic224 length_concat_words8)
    show ?thesis
      using sha224_Marshal_wire [OF v] g' s d counts32_field [OF assms(4) assms(1)]
      by (simp add: same_state_def)
  qed
  have sha256: "(\<exists>b g'. sha256_MarshalBinary s256 = Some (b, None) \<and>
        drop (marshaledSize256 - 8) b = be64 (drop_bit 3 (ucast (ctx_nl (ctx s256))) OR push_bit 29 (ucast (ctx_nh (ctx s256)))) \<and>
        (drop_bit 3 (ucast (ctx_nl (ctx s256))) OR push_bit 29 (ucast (ctx_nh (ctx s256))) :: uint64) = of_nat L \<and>
        sha256_UnmarshalBinary g256 b = Some (g', None) \<and>
        ctx_nl (ctx g') = ctx_nl (ctx s256) \<and> ctx_nh (ctx g') = ctx_nh (ctx s256) \<and>
        ctx_nx (ctx g') = ctx_nx (ctx s256))"
  proof -
    from assms(6) have v: "ctx_valid 64 (ctx s256)" by (simp add: counts_for_def)
    from sha256_restore [OF assms(6) assms(7)] obtain g' where g': "sha256_UnmarshalBinary g256
           (wire_format magic256 (words8 (ctx_h (ctx s256))) (ctx_x (ctx s256)) (unat (ctx_nx (ctx s256))) 64
              (drop_bit 3 (ucast (ctx_nl (ctx s256))) OR push_bit 29 (ucast (ctx_nh (ctx s256))))) = Some (g', None)"
      and s: "same_state (ctx g') (ctx s256)" by blast
    have d: "drop (marshaledSize256 - 8) (wire_format magic256 (words8 (ctx_h (ctx s256))) (ctx_x (ctx s256)) (unat (ctx_nx (ctx s256))) 64
              (drop_bit 3 (ucast (ctx_nl (ctx s256))) OR push_bit 29 (ucast (ctx_nh (ctx s256)))))
        = be64 (drop_bit 3 (ucast (ctx_nl (ctx s256))) OR push_bit 29 (ucast (ctx_nh (ctx s256))))"
      using v drop_wire_format [of "unat (ctx_nx (ctx s256))" "ctx_x (ctx s256)" 64 magic256 "words8 (ctx_h (ctx s256))"]
      by (simp add: ctx_valid_def marshaledSize256_def length_magic256 length_magic256 length_concat_words8)
    show ?thesis
      using sha256_Marshal_wire [OF v] g' s d counts32_field [OF assms(6) assms(1)]
      by (simp add: same_state_def)
  qed
  have sha384: "(\<exists>b g'. sha384_MarshalBinary s384 = Some (b, None) \<and>
        drop (marshaledSize512 - 8) b = be64 (drop_bit 3 (ctx_nl (ctx s384)) OR push_bit 61 (ctx_nh (ctx s384))) \<and>
        (drop_bit 3 (ctx_nl (ctx s384)) OR push_bit 61 (ctx_nh (ctx s384)) :: uint64) = of_nat L \<and>
        sha384_UnmarshalBinary g384 b = Some (g', None) \<and>
        ctx_nl (ctx g') = ctx_nl (ctx s384) \<and> ctx_nh (ctx g') = ctx_nh (ctx s384) \<and>
        ctx_nx (ctx g') = ctx_nx (ctx s384))"
  proof -
    from assms(8) have v: "ctx_valid 128 (ctx s384)" by (simp add: counts_for_def)
    from sha384_restore [OF assms(8) L64 assms(9)] obtain g' where g': "sha384_UnmarshalBinary g384
           (wire_format magic384 (words8l (ctx_h (ctx s384))) (ctx_x (ctx s384)) (unat (ctx_nx (ctx s384))) 128
              (drop_bit 3 (ctx_nl (ctx s384)) OR push_bit 61 (ctx_nh (ctx s384)))) = Some (g', None)"
      and s: "same_state (ctx g') (ctx s384)" by blast
    have d: "drop (marshaledSize512 - 8) (wire_format magic384 (words8l (ctx_h (ctx s384))) (ctx_x (ctx s384)) (unat (ctx_nx (ctx s384))) 128
              (drop_bit 3 (ctx_nl (ctx s384)) OR push_bit 61 (ctx_nh (ctx s384))))
        = be64 (drop_bit 3 (ctx_nl (ctx s384)) OR push_bit 61 (ctx_nh (ctx s384)))"
      using v drop_wire_format [of "unat (ctx_nx (ctx s384))" "ctx_x (ctx s384)" 128 magic384 "words8l (ctx_h (ctx s384))"]
      by (simp add: ctx_valid_def marshaledSize512_def length_magic512 length_magic384 length_concat_words8l)
    show ?thesis
      using sha384_Marshal_wire [OF v] g' s d counts64_field [OF assms(8) assms(1)]
      by (simp add: same_state_def)
  qed
  have sha512: "(\<exists>b g'. sha512_MarshalBinary s512 = Some (b, None) \<and>
        drop (marshaledSize512 - 8) b = be64 (drop_bit 3 (ctx_nl (ctx s512)) OR push_bit 61 (ctx_nh (ctx s512))) \<and>
        (drop_bit 3 (ctx_nl (ctx s512)) OR push_bit 61 (ctx_nh (ctx s512)) :: uint64) = of_nat L \<and>
        sha512_UnmarshalBinary g512 b = Some (g', None) \<and>
        ctx_nl (ctx g') = ctx_nl (ctx s512) \<and> ctx_nh (ctx g') = ctx_nh (ctx s512) \<and>
        ctx_nx (ctx g') = ctx_nx (ctx s512))"
  proof -
    from assms(10) have v: "ctx_valid 128 (ctx s512)" by (simp add: counts_for_def)
    from sha512_restore [OF assms(10) L64 assms(11)] obtain g' where g': "sha512_UnmarshalBinary g512
           (wire_format magic512 (words8l (ctx_h (ctx s512))) (ctx_x (ctx s512)) (unat (ctx_nx (ctx s512))) 128
              (drop_bit 3 (ctx_nl (ctx s512)) OR push_bit 61 (ctx_nh (ctx s512)))) = Some (g', None)"
      and s: "same_state (ctx g') (ctx s512)" by blast
    have d: "drop (marshaledSize512 - 8) (wire_format magic512 (words8l (ctx_h (ctx s512))) (ctx_x (ctx s512)) (unat (ctx_nx (ctx s512))) 128
              (drop_bit 3 (ctx_nl (ctx s512)) OR push_bit 61 (ctx_nh (ctx s512))))
        = be64 (drop_bit 3 (ctx_nl (ctx s512)) OR push_bit 61 (ctx_nh (ctx s512)))"
      using v drop_wire_format [of "unat (ctx_nx (ctx s512))" "ctx_x (ctx s512)" 128 magic512 "words8l (ctx_h (ctx s512))"]
      by (simp add: ctx_valid_def marshaledSize512_def length_magic512 length_magic512 length_concat_words8l)
    show ?thesis
      using sha512_Marshal_wire [OF v] g' s d counts64_field [OF assms(10) assms(1)]
      by (simp add: same_state_def)
  qed
  show ?thesis
    by (rule conjI [OF sha1 conjI [OF sha224 conjI [OF sha256 conjI [OF sha384 sha512]]]])
qed

theorem C4_length_field_invertible_witness:
  "(3 :: nat) < 2 ^ 61 \<and> counts_for 64 3 (ctx ex_sha1) \<and> counts_for 64 3 (ctx ex_sha256) \<and>
    counts_for 128 3 (ctx ex_sha512) \<and>
    (\<exists>b g'. sha1_MarshalBinary ex_sha1 = Some (b, None) \<and>
        drop (sha1MarshaledSize - 8) b = be64 (drop_bit 3 (ucast (ctx_nl (ctx ex_sha1))) OR push_bit 29 (ucast (ctx_nh (ctx ex_sha1)))) \<and>
        (drop_bit 3 (ucast (ctx_nl (ctx ex_sha1))) OR push_bit 29 (ucast (ctx_nh (ctx ex_sha1))) :: uint64) = of_nat 3 \<and>
        sha1_UnmarshalBinary ex_sha1 b = Some (g', None) \<and>
        ctx_nl (ctx g') = ctx_nl (ctx ex_sha1) \<and> ctx_nh (ctx g') = ctx_nh (ctx ex_sha1) \<and>
        ctx_nx (ctx g') = ctx_nx (ctx ex_sha1)) \<and>
    (\<exists>b g'. sha224_MarshalBinary ex_sha256 = Some (b, None) \<and>
        drop (marshaledSize256 - 8) b = be64 (drop_bit 3 (ucast (ctx_nl (ctx ex_sha256))) OR push_bit 29 (ucast (ctx_nh (ctx ex_sha256)))) \<and>
        (drop_bit 3 (ucast (ctx_nl (ctx ex_sha256))) OR push_bit 29 (ucast (ctx_nh (ctx ex_sha256))) :: uint64) = of_nat 3 \<and>
        sha224_UnmarshalBinary ex_sha256 b = Some (g', None) \<and>
        ctx_nl (ctx g') = ctx_nl (ctx ex_sha256) \<and> ctx_nh (ctx g') = ctx_nh (ctx ex_sha256) \<and>
        ctx_nx (ctx g') = ctx_nx (ctx ex_sha256)) \<and>
    (\<exists>b g'. sha256_MarshalBinary ex_sha256 = Some (b, None) \<and>
        drop (marshaledSize256 - 8) b = be64 (drop_bit 3 (ucast (ctx_nl (ctx ex_sha256))) OR push_bit 29 (ucast (ctx_nh (ctx ex_sha256)))) \<and>
        (drop_bit 3 (ucast (ctx_nl (ctx ex_sha256))) OR push_bit 29 (ucast (ctx_nh (ctx ex_sha256))) :: uint64) = of_nat 3 \<and>
        sha256_UnmarshalBinary ex_sha256 b = Some (g', None) \<and>
        ctx_nl (ctx g') = ctx_nl (ctx ex_sha256) \<and> ctx_nh (ctx g') = ctx_nh (ctx ex_sha256) \<and>
        ctx_nx (ctx g') = ctx_nx (ctx ex_sha256)) \<and>
    (\<exists>b g'. sha384_MarshalBinary ex_sha512 = Some (b, None) \<and>
        drop (marshaledSize512 - 8) b = be64 (drop_bit 3 (ctx_nl (ctx ex_sha512)) OR push_bit 61 (ctx_nh (ctx ex_sha512))) \<and>
        (drop_bit 3 (ctx_nl (ctx ex_sha512)) OR push_bit 61 (ctx_nh (ctx ex_sha512))) = of_nat 3 \<and>
        sha384_UnmarshalBinary ex_sha512 b = Some (g', None) \<and>
        ctx_nl (ctx g') = ctx_nl (ctx ex_sha512) \<and> ctx_nh (ctx g') = ctx_nh (ctx ex_sha512) \<and>
        ctx_nx (ctx g') = ctx_nx (ctx ex_sha512)) \<and>
    (\<exists>b g'. sha512_MarshalBinary ex_sha512 = Some (b, None) \<and>
        drop (marshaledSize512 - 8) b = be64 (drop_bit 3 (ctx_nl (ctx ex_sha512)) OR push_bit 61 (ctx_nh (ctx ex_sha512))) \<and>
        (drop_bit 3 (ctx_nl (ctx ex_sha512)) OR push_bit 61 (ctx_nh (ctx ex_sha512))) = of_nat 3 \<and>
        sha512_UnmarshalBinary ex_sha512 b = Some (g', None) \<and>
        ctx_nl (ctx g') = ctx_nl (ctx ex_sha512) \<and> ctx_nh (ctx g') = ctx_nh (ctx ex_sha512) \<and>
        ctx_nx (ctx g') = ctx_nx (ctx ex_sha512))"
proof -
  have L: "(3 :: nat) < 2 ^ 61" by simp
  note inst = C4_length_field_invertible [OF L ex_sha1_counts ex_sha1_len ex_sha256_counts ex_sha256_len
      ex_sha256_counts ex_sha256_len ex_sha512_counts ex_sha512_len ex_sha512_counts ex_sha512_len]
  show ?thesis
    by (rule conjI [OF L conjI [OF ex_sha1_counts conjI [OF ex_sha256_counts conjI [OF ex_sha512_counts inst]]]])
qed

text \<open>
  C5. Sum never changes the receiver: Final works on a copy. For every adapter, algorithm,
  receiver and prefix \<open>dst\<close>: when Sum returns, the receiver is what it was and the result
  is \<open>dst\<close> followed by the digest that Final computes from the receiver's context; a second
  Sum returns the same bytes; and a Write after the Sum does what it would have done without
  it. For a valid context Sum returns, with the digest of the chaining values, the pending
  bytes and the bit count.
\<close>

theorem C5_sum_frame:
  "((case sha1_Sum A1 s1 dst of
        None \<Rightarrow> True
      | Some (h', r) \<Rightarrow>
          h' = s1 \<and> r = dst @ fst (snd (SHA1_Final A1 (ctx s1))) \<and>
          sha1_Sum A1 h' dst = Some (h', r) \<and>
          sha1_Write A1 h' p = sha1_Write A1 s1 p) \<and>
     (ctx_valid 64 (ctx s1) \<longrightarrow>
        sha1_Sum A1 s1 dst =
          Some (s1, dst @ alg_final A1 (ctx_h (ctx s1))
                        (take (unat (ctx_nx (ctx s1))) (ctx_x (ctx s1))) (bitcount (ctx s1))))) \<and>
    ((case sha224_Sum A224 s224 dst of
        None \<Rightarrow> True
      | Some (h', r) \<Rightarrow>
          h' = s224 \<and> r = dst @ fst (snd (SHA224_Final A224 (ctx s224))) \<and>
          sha224_Sum A224 h' dst = Some (h', r) \<and>
          sha224_Write A224 h' p = sha224_Write A224 s224 p) \<and>
     (ctx_valid 64 (ctx s224) \<longrightarrow>
        sha224_Sum A224 s224 dst =
          Some (s224, dst @ alg_final A224 (ctx_h (ctx s224))
                        (take (unat (ctx_nx (ctx s224))) (ctx_x (ctx s224))) (bitcount (ctx s224))))) \<and>
    ((case sha256_Sum A256 s256 dst of
        None \<Rightarrow> True
      | Some (h', r) \<Rightarrow>
          h' = s256 \<and> r = dst @ fst (snd (SHA256_Final A256 (ctx s256))) \<and>
          sha256_Sum A256 h' dst = Some (h', r) \<and>
          sha256_Write A256 h' p = sha256_Write A256 s256 p) \<and>
     (ctx_valid 64 (ctx s256) \<longrightarrow>
        sha256_Sum A256 s256 dst =
          Some (s256, dst @ alg_final A256 (ctx_h (ctx s256))
                        (take (unat (ctx_nx (ctx s256))) (ctx_x (ctx s256))) (bitcount (ctx s256))))) \<and>
    ((case sha384_Sum A384 s384 dst of
        None \<Rightarrow> True
      | Some (h', r) \<Rightarrow>
          h' = s384 \<and> r = dst @ fst (snd (SHA384_Final A384 (ctx s384))) \<and>
          sha384_Sum A384 h' dst = Some (h', r) \<and>
          sha384_Write A384 h' p = sha384_Write A384 s384 p) \<and>
     (ctx_valid 128 (ctx s384) \<longrightarrow>
        sha384_Sum A384 s384 dst =
          Some (s384, dst @ alg_final A384 (ctx_h (ctx s384))
                        (take (unat (ctx_nx (ctx s384))) (ctx_x (ctx s384))) (bitcount (ctx s384))))) \<and>
    ((case sha512_Sum A512 s512 dst of
        None \<Rightarrow> True
      | Some (h', r) \<Rightarrow>
          h' = s512 \<and> r = dst @ fst (snd (SHA512_Final A512 (ctx s512))) \<and>
          sha512_Sum A512 h' dst = Some (h', r) \<and>
          sha512_Write A512 h' p = sha512_Write A512 s512 p) \<and>
     (ctx_valid 128 (ctx s512) \<longrightarrow>
        sha512_Sum A512 s512 dst =
          Some (s512, dst @ alg_final A512 (ctx_h (ctx s512))
                        (take (unat (ctx_nx (ctx s512))) (ctx_x (ctx s512))) (bitcount (ctx s512)))))"
proof -
  have sha1: "((case sha1_Sum A1 s1 dst of
        None \<Rightarrow> True
      | Some (h', r) \<Rightarrow>
          h' = s1 \<and> r = dst @ fst (snd (SHA1_Final A1 (ctx s1))) \<and>
          sha1_Sum A1 h' dst = Some (h', r) \<and>
          sha1_Write A1 h' p = sha1_Write A1 s1 p) \<and>
     (ctx_valid 64 (ctx s1) \<longrightarrow>
        sha1_Sum A1 s1 dst =
          Some (s1, dst @ alg_final A1 (ctx_h (ctx s1))
                        (take (unat (ctx_nx (ctx s1))) (ctx_x (ctx s1))) (bitcount (ctx s1)))))"
    using gen_sum_valid [of 64 s1 A1 dst]
    by (auto simp: sha1_Sum_gen SHA1_Final_def split: option.splits dest: gen_sum_frame)
  have sha224: "((case sha224_Sum A224 s224 dst of
        None \<Rightarrow> True
      | Some (h', r) \<Rightarrow>
          h' = s224 \<and> r = dst @ fst (snd (SHA224_Final A224 (ctx s224))) \<and>
          sha224_Sum A224 h' dst = Some (h', r) \<and>
          sha224_Write A224 h' p = sha224_Write A224 s224 p) \<and>
     (ctx_valid 64 (ctx s224) \<longrightarrow>
        sha224_Sum A224 s224 dst =
          Some (s224, dst @ alg_final A224 (ctx_h (ctx s224))
                        (take (unat (ctx_nx (ctx s224))) (ctx_x (ctx s224))) (bitcount (ctx s224)))))"
    using gen_sum_valid [of 64 s224 A224 dst]
    by (auto simp: sha224_Sum_gen SHA224_Final_def split: option.splits dest: gen_sum_frame)
  have sha256: "((case sha256_Sum A256 s256 dst of
        None \<Rightarrow> True
      | Some (h', r) \<Rightarrow>
          h' = s256 \<and> r = dst @ fst (snd (SHA256_Final A256 (ctx s256))) \<and>
          sha256_Sum A256 h' dst = Some (h', r) \<and>
          sha256_Write A256 h' p = sha256_Write A256 s256 p) \<and>
     (ctx_valid 64 (ctx s256) \<longrightarrow>
        sha256_Sum A256 s256 dst =
          Some (s256, dst @ alg_final A256 (ctx_h (ctx s256))
                        (take (unat (ctx_nx (ctx s256))) (ctx_x (ctx s256))) (bitcount (ctx s256)))))"
    using gen_sum_valid [of 64 s256 A256 dst]
    by (auto simp: sha256_Sum_gen SHA256_Final_def split: option.splits dest: gen_sum_frame)
  have sha384: "((case sha384_Sum A384 s384 dst of
        None \<Rightarrow> True
      | Some (h', r) \<Rightarrow>
          h' = s384 \<and> r = dst @ fst (snd (SHA384_Final A384 (ctx s384))) \<and>
          sha384_Sum A384 h' dst = Some (h', r) \<and>
          sha384_Write A384 h' p = sha384_Write A384 s384 p) \<and>
     (ctx_valid 128 (ctx s384) \<longrightarrow>
        sha384_Sum A384 s384 dst =
          Some (s384, dst @ alg_final A384 (ctx_h (ctx s384))
                        (take (unat (ctx_nx (ctx s384))) (ctx_x (ctx s384))) (bitcount (ctx s384)))))"
    using gen_sum_valid [of 128 s384 A384 dst]
    by (auto simp: sha384_Sum_gen SHA384_Final_def split: option.splits dest: gen_sum_frame)
  have sha512: "((case sha512_Sum A512 s512 dst of
        None \<Rightarrow> True
      | Some (h', r) \<Rightarrow>
          h' = s512 \<and> r = dst @ fst (snd (SHA512_Final A512 (ctx s512))) \<and>
          sha512_Sum A512 h' dst = Some (h', r) \<and>
          sha512_Write A512 h' p = sha512_Write A512 s512 p) \<and>
     (ctx_valid 128 (ctx s512) \<longrightarrow>
        sha512_Sum A512 s512 dst =
          Some (s512, dst @ alg_final A512 (ctx_h (ctx s512))
                        (take (unat (ctx_nx (ctx s512))) (ctx_x (ctx s512))) (bitcount (ctx s512)))))"
    using gen_sum_valid [of 128 s512 A512 dst]
    by (auto simp: sha512_Sum_gen SHA512_Final_def split: option.splits dest: gen_sum_frame)
  show ?thesis
    by (rule conjI [OF sha1 conjI [OF sha224 conjI [OF sha256 conjI [OF sha384 sha512]]]])
qed

theorem C5_sum_frame_witness:
  "ctx_valid 64 (ctx ex_sha1) \<and> ctx_valid 64 (ctx ex_sha256) \<and> ctx_valid 128 (ctx ex_sha512) \<and>
    sha1_Sum demo5 ex_sha1 [0xAA] = Some (ex_sha1, [0xAA] @ [0, 0, 0, 1, 0, 0, 0, 5, 7, 8, 9, 0, 0, 0, 0, 0, 0, 0, 24]) \<and>
    sha224_Sum demo8 ex_sha256 [0xAA] = Some (ex_sha256, [0xAA] @ [0, 0, 0, 1, 0, 0, 0, 8, 7, 8, 9, 0, 0, 0, 0, 0, 0, 0, 24]) \<and>
    sha256_Sum demo8 ex_sha256 [0xAA] = Some (ex_sha256, [0xAA] @ [0, 0, 0, 1, 0, 0, 0, 8, 7, 8, 9, 0, 0, 0, 0, 0, 0, 0, 24]) \<and>
    sha384_Sum demo8l ex_sha512 [0xAA] = Some (ex_sha512, [0xAA] @ [0, 0, 0, 0, 0, 0, 0, 1, 0, 0, 0, 0, 0, 0, 0, 8, 7, 8, 9,
          0, 0, 0, 0, 0, 0, 0, 0, 0, 0, 0, 0, 0, 0, 0, 24]) \<and>
    sha512_Sum demo8l ex_sha512 [0xAA] = Some (ex_sha512, [0xAA] @ [0, 0, 0, 0, 0, 0, 0, 1, 0, 0, 0, 0, 0, 0, 0, 8, 7, 8, 9,
          0, 0, 0, 0, 0, 0, 0, 0, 0, 0, 0, 0, 0, 0, 0, 24]) \<and>
    snd (snd (SHA1_Final demo5 (ctx ex_sha1))) \<noteq> ctx ex_sha1"
  using C5_sum_frame [where ?A1.0 = demo5 and ?s1.0 = ex_sha1 and ?A224.0 = demo8 and ?s224.0 = ex_sha256
      and ?A256.0 = demo8 and ?s256.0 = ex_sha256 and ?A384.0 = demo8l and ?s384.0 = ex_sha512
      and ?A512.0 = demo8l and ?s512.0 = ex_sha512 and dst = "[0xAA]"]
    ex_sha1_valid ex_sha256_valid ex_sha512_valid
  by (simp add: ex_sha1_def ex_sha256_def ex_sha512_def demo5_def demo8_def demo8l_def bitcount_def
      be32_def be64_def SHA1_Final_def prim_Final_def)

text \<open>
  C6. Incremental hashing does not depend on how the input is split: for every variant,
  every algorithm and all byte strings \<open>m1\<close> and \<open>m2\<close>, writing \<open>m1\<close> and then \<open>m2\<close> to a
  freshly Reset adapter and calling Sum gives the same bytes as writing \<open>m1 @ m2\<close> in one
  Write to a freshly Reset adapter and calling Sum; and both sequences return (no panic).
\<close>

theorem C6_split_invariant:
  "(sum_after (sha1_Write A1) (sha1_Sum A1) (sha1_Reset A1 z1) [m1, m2] dst =
       sum_after (sha1_Write A1) (sha1_Sum A1) (sha1_Reset A1 z1) [m1 @ m2] dst \<and>
     sum_after (sha1_Write A1) (sha1_Sum A1) (sha1_Reset A1 z1) [m1 @ m2] dst \<noteq> None) \<and>
    (sum_after (sha224_Write A224) (sha224_Sum A224) (sha224_Reset A224 z224) [m1, m2] dst =
       sum_after (sha224_Write A224) (sha224_Sum A224) (sha224_Reset A224 z224) [m1 @ m2] dst \<and>
     sum_after (sha224_Write A224) (sha224_Sum A224) (sha224_Reset A224 z224) [m1 @ m2] dst \<noteq> None) \<and>
    (sum_after (sha256_Write A256) (sha256_Sum A256) (sha256_Reset A256 z256) [m1, m2] dst =
       sum_after (sha256_Write A256) (sha256_Sum A256) (sha256_Reset A256 z256) [m1 @ m2] dst \<and>
     sum_after (sha256_Write A256) (sha256_Sum A256) (sha256_Reset A256 z256) [m1 @ m2] dst \<noteq> None) \<and>
    (sum_after (sha384_Write A384) (sha384_Sum A384) (sha384_Reset A384 z384) [m1, m2] dst =
       sum_after (sha384_Write A384) (sha384_Sum A384) (sha384_Reset A384 z384) [m1 @ m2] dst \<and>
     sum_after (sha384_Write A384) (sha384_Sum A384) (sha384_Reset A384 z384) [m1 @ m2] dst \<noteq> None) \<and>
    (sum_after (sha512_Write A512) (sha512_Sum A512) (sha512_Reset A512 z512) [m1, m2] dst =
       sum_after (sha512_Write A512) (sha512_Sum A512) (sha512_Reset A512 z512) [m1 @ m2] dst \<and>
     sum_after (sha512_Write A512) (sha512_Sum A512) (sha512_Reset A512 z512) [m1 @ m2] dst \<noteq> None)"
proof -
  have sha1: "(sum_after (sha1_Write A1) (sha1_Sum A1) (sha1_Reset A1 z1) [m1, m2] dst =
       sum_after (sha1_Write A1) (sha1_Sum A1) (sha1_Reset A1 z1) [m1 @ m2] dst \<and>
     sum_after (sha1_Write A1) (sha1_Sum A1) (sha1_Reset A1 z1) [m1 @ m2] dst \<noteq> None)"
    by (simp add: sha1_sum_after)
  have sha224: "(sum_after (sha224_Write A224) (sha224_Sum A224) (sha224_Reset A224 z224) [m1, m2] dst =
       sum_after (sha224_Write A224) (sha224_Sum A224) (sha224_Reset A224 z224) [m1 @ m2] dst \<and>
     sum_after (sha224_Write A224) (sha224_Sum A224) (sha224_Reset A224 z224) [m1 @ m2] dst \<noteq> None)"
    by (simp add: sha224_sum_after)
  have sha256: "(sum_after (sha256_Write A256) (sha256_Sum A256) (sha256_Reset A256 z256) [m1, m2] dst =
       sum_after (sha256_Write A256) (sha256_Sum A256) (sha256_Reset A256 z256) [m1 @ m2] dst \<and>
     sum_after (sha256_Write A256) (sha256_Sum A256) (sha256_Reset A256 z256) [m1 @ m2] dst \<noteq> None)"
    by (simp add: sha256_sum_after)
  have sha384: "(sum_after (sha384_Write A384) (sha384_Sum A384) (sha384_Reset A384 z384) [m1, m2] dst =
       sum_after (sha384_Write A384) (sha384_Sum A384) (sha384_Reset A384 z384) [m1 @ m2] dst \<and>
     sum_after (sha384_Write A384) (sha384_Sum A384) (sha384_Reset A384 z384) [m1 @ m2] dst \<noteq> None)"
    by (simp add: sha384_sum_after)
  have sha512: "(sum_after (sha512_Write A512) (sha512_Sum A512) (sha512_Reset A512 z512) [m1, m2] dst =
       sum_after (sha512_Write A512) (sha512_Sum A512) (sha512_Reset A512 z512) [m1 @ m2] dst \<and>
     sum_after (sha512_Write A512) (sha512_Sum A512) (sha512_Reset A512 z512) [m1 @ m2] dst \<noteq> None)"
    by (simp add: sha512_sum_after)
  show ?thesis
    by (rule conjI [OF sha1 conjI [OF sha224 conjI [OF sha256 conjI [OF sha384 sha512]]]])
qed

theorem C6_split_invariant_witness:
  "sum_after (sha1_Write demo5) (sha1_Sum demo5) (sha1_Reset demo5 ex_sha1) [[7], [8, 9]] [] =
       Some [0, 0, 0, 1, 0, 0, 0, 5, 7, 8, 9, 0, 0, 0, 0, 0, 0, 0, 24] \<and>
    sum_after (sha224_Write demo8) (sha224_Sum demo8) (sha224_Reset demo8 ex_sha256) [[7], [8, 9]] [] =
       Some [0, 0, 0, 1, 0, 0, 0, 8, 7, 8, 9, 0, 0, 0, 0, 0, 0, 0, 24] \<and>
    sum_after (sha256_Write demo8) (sha256_Sum demo8) (sha256_Reset demo8 ex_sha256) [[7], [8, 9]] [] =
       Some [0, 0, 0, 1, 0, 0, 0, 8, 7, 8, 9, 0, 0, 0, 0, 0, 0, 0, 24] \<and>
    sum_after (sha384_Write demo8l) (sha384_Sum demo8l) (sha384_Reset demo8l ex_sha512) [[7], [8, 9]] [] =
       Some [0, 0, 0, 0, 0, 0, 0, 1, 0, 0, 0, 0, 0, 0, 0, 8, 7, 8, 9,
          0, 0, 0, 0, 0, 0, 0, 0, 0, 0, 0, 0, 0, 0, 0, 24] \<and>
    sum_after (sha512_Write demo8l) (sha512_Sum demo8l) (sha512_Reset demo8l ex_sha512) [[7], [8, 9]] [] =
       Some [0, 0, 0, 0, 0, 0, 0, 1, 0, 0, 0, 0, 0, 0, 0, 8, 7, 8, 9,
          0, 0, 0, 0, 0, 0, 0, 0, 0, 0, 0, 0, 0, 0, 0, 24]"
  using C6_split_invariant [where ?A1.0 = demo5 and ?z1.0 = ex_sha1 and ?A224.0 = demo8 and ?z224.0 = ex_sha256
      and ?A256.0 = demo8 and ?z256.0 = ex_sha256 and ?A384.0 = demo8l and ?z384.0 = ex_sha512
      and ?A512.0 = demo8l and ?z512.0 = ex_sha512 and ?m1.0 = "[7]" and ?m2.0 = "[8, 9]" and dst = "[]"]
  by (simp add: sha1_sum_after sha224_sum_after sha256_sum_after sha384_sum_after sha512_sum_after
      absorb_short demo5_def demo8_def demo8l_def be32_def be64_def)

text \<open>
  C7. For every context reached from Reset by Write calls, the count of pending bytes is
  below the block size (64 or 128); it is the number of bytes written modulo the block
  size. In particular a SHA-512 context after writes of exactly 128 bytes in total has
  count zero, and the buffer section of its marshaled form (the 128 bytes after the tag
  and the chaining values) is all zero. Writes from Reset never panic.
\<close>

theorem C7_pending_below_block:
  "(case writes (sha1_Write A1) (sha1_Reset A1 z1) ps of
       None \<Rightarrow> False
     | Some s \<Rightarrow> unat (ctx_nx (ctx s)) < sha1_BlockSize \<and>
                unat (ctx_nx (ctx s)) = length (concat ps) mod sha1_BlockSize) \<and>
    (case writes (sha224_Write A224) (sha224_Reset A224 z224) ps of
       None \<Rightarrow> False
     | Some s \<Rightarrow> unat (ctx_nx (ctx s)) < sha224_BlockSize \<and>
                unat (ctx_nx (ctx s)) = length (concat ps) mod sha224_BlockSize) \<and>
    (case writes (sha256_Write A256) (sha256_Reset A256 z256) ps of
       None \<Rightarrow> False
     | Some s \<Rightarrow> unat (ctx_nx (ctx s)) < sha256_BlockSize \<and>
                unat (ctx_nx (ctx s)) = length (concat ps) mod sha256_BlockSize) \<and>
    (case writes (sha384_Write A384) (sha384_Reset A384 z384) ps of
       None \<Rightarrow> False
     | Some s \<Rightarrow> unat (ctx_nx (ctx s)) < sha384_BlockSize \<and>
                unat (ctx_nx (ctx s)) = length (concat ps) mod sha384_BlockSize) \<and>
    (case writes (sha512_Write A512) (sha512_Reset A512 z512) ps of
       None \<Rightarrow> False
     | Some s \<Rightarrow> unat (ctx_nx (ctx s)) < sha512_BlockSize \<and>
                unat (ctx_nx (ctx s)) = length (concat ps) mod sha512_BlockSize) \<and>
    (length (concat ps) = 128 \<longrightarrow>
      (case writes (sha512_Write A512) (sha512_Reset A512 z512) ps of
         None \<Rightarrow> False
       | Some s \<Rightarrow> ctx_nx (ctx s) = 0 \<and>
           (case sha512_MarshalBinary s of
              None \<Rightarrow> False
            | Some (b, e) \<Rightarrow> e = None \<and> length b = 204 \<and>
                take 128 (drop 68 b) = replicate 128 0)))"
proof -
  have sha1: "(case writes (sha1_Write A1) (sha1_Reset A1 z1) ps of
       None \<Rightarrow> False
     | Some s \<Rightarrow> unat (ctx_nx (ctx s)) < sha1_BlockSize \<and>
                unat (ctx_nx (ctx s)) = length (concat ps) mod sha1_BlockSize)"
  proof -
    from sha1_reached_ex [of A1 z1 ps] obtain s where
      s: "writes (sha1_Write A1) (sha1_Reset A1 z1) ps = Some s" by blast
    from sha1_reached [OF s] show ?thesis
      by (simp add: s counts_for_def sha1_BlockSize_def)
  qed
  have sha224: "(case writes (sha224_Write A224) (sha224_Reset A224 z224) ps of
       None \<Rightarrow> False
     | Some s \<Rightarrow> unat (ctx_nx (ctx s)) < sha224_BlockSize \<and>
                unat (ctx_nx (ctx s)) = length (concat ps) mod sha224_BlockSize)"
  proof -
    from sha224_reached_ex [of A224 z224 ps] obtain s where
      s: "writes (sha224_Write A224) (sha224_Reset A224 z224) ps = Some s" by blast
    from sha224_reached [OF s] show ?thesis
      by (simp add: s counts_for_def sha224_BlockSize_def)
  qed
  have sha256: "(case writes (sha256_Write A256) (sha256_Reset A256 z256) ps of
       None \<Rightarrow> False
     | Some s \<Rightarrow> unat (ctx_nx (ctx s)) < sha256_BlockSize \<and>
                unat (ctx_nx (ctx s)) = length (concat ps) mod sha256_BlockSize)"
  proof -
    from sha256_reached_ex [of A256 z256 ps] obtain s where
      s: "writes (sha256_Write A256) (sha256_Reset A256 z256) ps = Some s" by blast
    from sha256_reached [OF s] show ?thesis
      by (simp add: s counts_for_def sha256_BlockSize_def)
  qed
  have sha384: "(case writes (sha384_Write A384) (sha384_Reset A384 z384) ps of
       None \<Rightarrow> False
     | Some s \<Rightarrow> unat (ctx_nx (ctx s)) < sha384_BlockSize \<and>
                unat (ctx_nx (ctx s)) = length (concat ps) mod sha384_BlockSize)"
  proof -
    from sha384_reached_ex [of A384 z384 ps] obtain s where
      s: "writes (sha384_Write A384) (sha384_Reset A384 z384) ps = Some s" by blast
    from sha384_reached [OF s] show ?thesis
      by (simp add: s counts_for_def sha384_BlockSize_def)
  qed
  have sha512: "(case writes (sha512_Write A512) (sha512_Reset A512 z512) ps of
       None \<Rightarrow> False
     | Some s \<Rightarrow> unat (ctx_nx (ctx s)) < sha512_BlockSize \<and>
                unat (ctx_nx (ctx s)) = length (concat ps) mod sha512_BlockSize)"
  proof -
    from sha512_reached_ex [of A512 z512 ps] obtain s where
      s: "writes (sha512_Write A512) (sha512_Reset A512 z512) ps = Some s" by blast
    from sha512_reached [OF s] show ?thesis
      by (simp add: s counts_for_def sha512_BlockSize_def)
  qed
  have scenario: "(length (concat ps) = 128 \<longrightarrow>
      (case writes (sha512_Write A512) (sha512_Reset A512 z512) ps of
         None \<Rightarrow> False
       | Some s \<Rightarrow> ctx_nx (ctx s) = 0 \<and>
           (case sha512_MarshalBinary s of
              None \<Rightarrow> False
            | Some (b, e) \<Rightarrow> e = None \<and> length b = 204 \<and>
                take 128 (drop 68 b) = replicate 128 0)))"
  proof
    assume len: "length (concat ps) = 128"
    from sha512_reached_ex [of A512 z512 ps] obtain s where
      s: "writes (sha512_Write A512) (sha512_Reset A512 z512) ps = Some s" by blast
    from sha512_reached [OF s] have c: "counts_for 128 128 (ctx s)"
      by (simp add: len)
    then have v: "ctx_valid 128 (ctx s)" and "unat (ctx_nx (ctx s)) = 0"
      by (simp_all add: counts_for_def)
    then have nx: "ctx_nx (ctx s) = 0"
      by (simp add: unat_eq_0)
    from v have l: "length (ctx_x (ctx s)) = 128"
      by (simp add: ctx_valid_def)
    show "case writes (sha512_Write A512) (sha512_Reset A512 z512) ps of
         None \<Rightarrow> False
       | Some s \<Rightarrow> ctx_nx (ctx s) = 0 \<and>
           (case sha512_MarshalBinary s of
              None \<Rightarrow> False
            | Some (b, e) \<Rightarrow> e = None \<and> length b = 204 \<and>
                take 128 (drop 68 b) = replicate 128 0)"
      using sha512_wire_length [OF v]
      by (simp add: s nx sha512_Marshal_wire [OF v])
        (simp add: wire_format_def length_magic512 length_concat_words8l)
  qed
  show ?thesis
    by (rule conjI [OF sha1 conjI [OF sha224 conjI [OF sha256 conjI [OF sha384 conjI [OF sha512 scenario]]]]])
qed

theorem C7_pending_below_block_witness:
  "length (concat [replicate 100 (1 :: byte), replicate 28 2]) = 128 \<and>
    (case writes (sha512_Write demo8l) (sha512_Reset demo8l ex_sha512) [replicate 100 1, replicate 28 2] of
       None \<Rightarrow> False
     | Some s \<Rightarrow> ctx_nx (ctx s) = 0 \<and>
         (case sha512_MarshalBinary s of
            None \<Rightarrow> False
          | Some (b, e) \<Rightarrow> e = None \<and> length b = 204 \<and>
              take 128 (drop 68 b) = replicate 128 0))"
proof -
  have len: "length (concat [replicate 100 (1 :: byte), replicate 28 2]) = 128"
    by simp
  note all = C7_pending_below_block [where ?A512.0 = demo8l and ?z512.0 = ex_sha512
      and ps = "[replicate 100 1, replicate 28 2]"]
  note scenario = all [THEN conjunct2, THEN conjunct2, THEN conjunct2, THEN conjunct2, THEN conjunct2]
  show ?thesis
    by (rule conjI [OF len scenario [THEN mp, OF len]])
qed

text \<open>
  C8. For every adapter, algorithm, receiver and input slice \<open>p\<close>: when Write returns, it
  returns (length of \<open>p\<close>, nil); on the empty slice it returns at once and leaves the
  receiver as it is, whatever the context; it panics exactly when \<open>p\<close> is not empty and
  the primitive Update reports failure, and there is no error return. For a valid context
  (buffer of block size, count below it) the panic is unreachable: Write returns, and the
  receiver holds the context that Update leaves.
\<close>

theorem C8_write_returns:
  "(sha1_Write A1 s1 [] = Some (s1, 0, None) \<and>
     (sha1_Write A1 s1 p = None \<longleftrightarrow> p \<noteq> [] \<and> fst (SHA1_Update A1 (ctx s1) p) = 0) \<and>
     (case sha1_Write A1 s1 p of None \<Rightarrow> True | Some (h', n, e) \<Rightarrow> n = length p \<and> e = None) \<and>
     (ctx_valid 64 (ctx s1) \<longrightarrow>
        sha1_Write A1 s1 p = Some (s1\<lparr>ctx := snd (SHA1_Update A1 (ctx s1) p)\<rparr>, length p, None))) \<and>
    (sha224_Write A224 s224 [] = Some (s224, 0, None) \<and>
     (sha224_Write A224 s224 p = None \<longleftrightarrow> p \<noteq> [] \<and> fst (SHA224_Update A224 (ctx s224) p) = 0) \<and>
     (case sha224_Write A224 s224 p of None \<Rightarrow> True | Some (h', n, e) \<Rightarrow> n = length p \<and> e = None) \<and>
     (ctx_valid 64 (ctx s224) \<longrightarrow>
        sha224_Write A224 s224 p = Some (s224\<lparr>ctx := snd (SHA224_Update A224 (ctx s224) p)\<rparr>, length p, None))) \<and>
    (sha256_Write A256 s256 [] = Some (s256, 0, None) \<and>
     (sha256_Write A256 s256 p = None \<longleftrightarrow> p \<noteq> [] \<and> fst (SHA256_Update A256 (ctx s256) p) = 0) \<and>
     (case sha256_Write A256 s256 p of None \<Rightarrow> True | Some (h', n, e) \<Rightarrow> n = length p \<and> e = None) \<and>
     (ctx_valid 64 (ctx s256) \<longrightarrow>
        sha256_Write A256 s256 p = Some (s256\<lparr>ctx := snd (SHA256_Update A256 (ctx s256) p)\<rparr>, length p, None))) \<and>
    (sha384_Write A384 s384 [] = Some (s384, 0, None) \<and>
     (sha384_Write A384 s384 p = None \<longleftrightarrow> p \<noteq> [] \<and> fst (SHA384_Update A384 (ctx s384) p) = 0) \<and>
     (case sha384_Write A384 s384 p of None \<Rightarrow> True | Some (h', n, e) \<Rightarrow> n = length p \<and> e = None) \<and>
     (ctx_valid 128 (ctx s384) \<longrightarrow>
        sha384_Write A384 s384 p = Some (s384\<lparr>ctx := snd (SHA384_Update A384 (ctx s384) p)\<rparr>, length p, None))) \<and>
    (sha512_Write A512 s512 [] = Some (s512, 0, None) \<and>
     (sha512_Write A512 s512 p = None \<longleftrightarrow> p \<noteq> [] \<and> fst (SHA512_Update A512 (ctx s512) p) = 0) \<and>
     (case sha512_Write A512 s512 p of None \<Rightarrow> True | Some (h', n, e) \<Rightarrow> n = length p \<and> e = None) \<and>
     (ctx_valid 128 (ctx s512) \<longrightarrow>
        sha512_Write A512 s512 p = Some (s512\<lparr>ctx := snd (SHA512_Update A512 (ctx s512) p)\<rparr>, length p, None)))"
proof -
  have sha1: "(sha1_Write A1 s1 [] = Some (s1, 0, None) \<and>
     (sha1_Write A1 s1 p = None \<longleftrightarrow> p \<noteq> [] \<and> fst (SHA1_Update A1 (ctx s1) p) = 0) \<and>
     (case sha1_Write A1 s1 p of None \<Rightarrow> True | Some (h', n, e) \<Rightarrow> n = length p \<and> e = None) \<and>
     (ctx_valid 64 (ctx s1) \<longrightarrow>
        sha1_Write A1 s1 p = Some (s1\<lparr>ctx := snd (SHA1_Update A1 (ctx s1) p)\<rparr>, length p, None)))"
    using gen_Write_eq [of 64 s1 A1 p]
    by (auto simp: sha1_Write_gen SHA1_Update_def gen_Write_nil gen_Write_None
        split: option.splits dest: gen_Write_ret)
  have sha224: "(sha224_Write A224 s224 [] = Some (s224, 0, None) \<and>
     (sha224_Write A224 s224 p = None \<longleftrightarrow> p \<noteq> [] \<and> fst (SHA224_Update A224 (ctx s224) p) = 0) \<and>
     (case sha224_Write A224 s224 p of None \<Rightarrow> True | Some (h', n, e) \<Rightarrow> n = length p \<and> e = None) \<and>
     (ctx_valid 64 (ctx s224) \<longrightarrow>
        sha224_Write A224 s224 p = Some (s224\<lparr>ctx := snd (SHA224_Update A224 (ctx s224) p)\<rparr>, length p, None)))"
    using gen_Write_eq [of 64 s224 A224 p]
    by (auto simp: sha224_Write_gen SHA224_Update_def gen_Write_nil gen_Write_None
        split: option.splits dest: gen_Write_ret)
  have sha256: "(sha256_Write A256 s256 [] = Some (s256, 0, None) \<and>
     (sha256_Write A256 s256 p = None \<longleftrightarrow> p \<noteq> [] \<and> fst (SHA256_Update A256 (ctx s256) p) = 0) \<and>
     (case sha256_Write A256 s256 p of None \<Rightarrow> True | Some (h', n, e) \<Rightarrow> n = length p \<and> e = None) \<and>
     (ctx_valid 64 (ctx s256) \<longrightarrow>
        sha256_Write A256 s256 p = Some (s256\<lparr>ctx := snd (SHA256_Update A256 (ctx s256) p)\<rparr>, length p, None)))"
    using gen_Write_eq [of 64 s256 A256 p]
    by (auto simp: sha256_Write_gen SHA256_Update_def gen_Write_nil gen_Write_None
        split: option.splits dest: gen_Write_ret)
  have sha384: "(sha384_Write A384 s384 [] = Some (s384, 0, None) \<and>
     (sha384_Write A384 s384 p = None \<longleftrightarrow> p \<noteq> [] \<and> fst (SHA384_Update A384 (ctx s384) p) = 0) \<and>
     (case sha384_Write A384 s384 p of None \<Rightarrow> True | Some (h', n, e) \<Rightarrow> n = length p \<and> e = None) \<and>
     (ctx_valid 128 (ctx s384) \<longrightarrow>
        sha384_Write A384 s384 p = Some (s384\<lparr>ctx := snd (SHA384_Update A384 (ctx s384) p)\<rparr>, length p, None)))"
    using gen_Write_eq [of 128 s384 A384 p]
    by (auto simp: sha384_Write_gen SHA384_Update_def gen_Write_nil gen_Write_None
        split: option.splits dest: gen_Write_ret)
  have sha512: "(sha512_Write A512 s512 [] = Some (s512, 0, None) \<and>
     (sha512_Write A512 s512 p = None \<longleftrightarrow> p \<noteq> [] \<and> fst (SHA512_Update A512 (ctx s512) p) = 0) \<and>
     (case sha512_Write A512 s512 p of None \<Rightarrow> True | Some (h', n, e) \<Rightarrow> n = length p \<and> e = None) \<and>
     (ctx_valid 128 (ctx s512) \<longrightarrow>
        sha512_Write A512 s512 p = Some (s512\<lparr>ctx := snd (SHA512_Update A512 (ctx s512) p)\<rparr>, length p, None)))"
    using gen_Write_eq [of 128 s512 A512 p]
    by (auto simp: sha512_Write_gen SHA512_Update_def gen_Write_nil gen_Write_None
        split: option.splits dest: gen_Write_ret)
  show ?thesis
    by (rule conjI [OF sha1 conjI [OF sha224 conjI [OF sha256 conjI [OF sha384 sha512]]]])
qed

theorem C8_write_returns_witness:
  "ctx_valid 64 (ctx ex_sha1) \<and> ctx_valid 64 (ctx ex_sha256) \<and> ctx_valid 128 (ctx ex_sha512) \<and>
    sha1_Write demo5 ex_sha1 [1] =
       Some (ex_sha1\<lparr>ctx := (ctx ex_sha1)\<lparr>ctx_nl := 32, ctx_x := [7, 8, 9, 1] @ replicate 60 0, ctx_nx := 4\<rparr>\<rparr>, 1, None) \<and>
    sha224_Write demo8 ex_sha256 [1] =
       Some (ex_sha256\<lparr>ctx := (ctx ex_sha256)\<lparr>ctx_nl := 32, ctx_x := [7, 8, 9, 1] @ replicate 60 0, ctx_nx := 4\<rparr>\<rparr>, 1, None) \<and>
    sha256_Write demo8 ex_sha256 [1] =
       Some (ex_sha256\<lparr>ctx := (ctx ex_sha256)\<lparr>ctx_nl := 32, ctx_x := [7, 8, 9, 1] @ replicate 60 0, ctx_nx := 4\<rparr>\<rparr>, 1, None) \<and>
    sha384_Write demo8l ex_sha512 [1] =
       Some (ex_sha512\<lparr>ctx := (ctx ex_sha512)\<lparr>ctx_nl := 32, ctx_x := [7, 8, 9, 1] @ replicate 124 0, ctx_nx := 4\<rparr>\<rparr>, 1, None) \<and>
    sha512_Write demo8l ex_sha512 [1] =
       Some (ex_sha512\<lparr>ctx := (ctx ex_sha512)\<lparr>ctx_nl := 32, ctx_x := [7, 8, 9, 1] @ replicate 124 0, ctx_nx := 4\<rparr>\<rparr>, 1, None) \<and>
    \<not> ctx_valid 64 (ctx (ex_sha1\<lparr>ctx := (ctx ex_sha1)\<lparr>ctx_nx := 64\<rparr>\<rparr>)) \<and>
    sha1_Write demo5 (ex_sha1\<lparr>ctx := (ctx ex_sha1)\<lparr>ctx_nx := 64\<rparr>\<rparr>) [1] = None"
proof -
  note good = C8_write_returns [where ?A1.0 = demo5 and ?s1.0 = ex_sha1 and ?A224.0 = demo8 and ?s224.0 = ex_sha256
      and ?A256.0 = demo8 and ?s256.0 = ex_sha256 and ?A384.0 = demo8l and ?s384.0 = ex_sha512
      and ?A512.0 = demo8l and ?s512.0 = ex_sha512 and p = "[1]"]
  note bad = C8_write_returns [where ?A1.0 = demo5
      and ?s1.0 = "ex_sha1\<lparr>ctx := (ctx ex_sha1)\<lparr>ctx_nx := 64\<rparr>\<rparr>" and p = "[1]",
      THEN conjunct1, THEN conjunct2, THEN conjunct1]
  have flag: "fst (SHA1_Update demo5 (ctx (ex_sha1\<lparr>ctx := (ctx ex_sha1)\<lparr>ctx_nx := 64\<rparr>\<rparr>)) [1]) = 0"
    by (simp add: SHA1_Update_def prim_Update_def)
  have panic: "sha1_Write demo5 (ex_sha1\<lparr>ctx := (ctx ex_sha1)\<lparr>ctx_nx := 64\<rparr>\<rparr>) [1] = None"
    using flag by (simp only: bad) simp
  have invalid: "\<not> ctx_valid 64 (ctx (ex_sha1\<lparr>ctx := (ctx ex_sha1)\<lparr>ctx_nx := 64\<rparr>\<rparr>))"
    by (simp add: ctx_valid_def)
  show ?thesis
    using good ex_sha1_valid ex_sha256_valid ex_sha512_valid panic invalid
    by (simp add: sha1_ex_Write sha224_ex_Write sha256_ex_Write sha384_ex_Write sha512_ex_Write)
qed

text \<open>
  C9. UnmarshalBinary is atomic on failure: for every variant, every receiver and every
  input, when it returns an error (identifier or size) the receiver is left as it was.
\<close>

theorem C9_unmarshal_failure_frame:
  "(sha1_UnmarshalBinary s1 b = Some (s1', Some e1) \<longrightarrow> s1' = s1) \<and>
    (sha224_UnmarshalBinary s224 b = Some (s224', Some e2) \<longrightarrow> s224' = s224) \<and>
    (sha256_UnmarshalBinary s256 b = Some (s256', Some e3) \<longrightarrow> s256' = s256) \<and>
    (sha384_UnmarshalBinary s384 b = Some (s384', Some e4) \<longrightarrow> s384' = s384) \<and>
    (sha512_UnmarshalBinary s512 b = Some (s512', Some e7) \<longrightarrow> s512' = s512)"
proof (intro conjI impI)
  assume "sha1_UnmarshalBinary s1 b = Some (s1', Some e1)"
  then show "s1' = s1" by (rule sha1_Unmarshal_frame)
next
  assume "sha224_UnmarshalBinary s224 b = Some (s224', Some e2)"
  then show "s224' = s224" by (rule sha224_Unmarshal_frame)
next
  assume "sha256_UnmarshalBinary s256 b = Some (s256', Some e3)"
  then show "s256' = s256" by (rule sha256_Unmarshal_frame)
next
  assume "sha384_UnmarshalBinary s384 b = Some (s384', Some e4)"
  then show "s384' = s384" by (rule sha384_Unmarshal_frame)
next
  assume "sha512_UnmarshalBinary s512 b = Some (s512', Some e7)"
  then show "s512' = s512" by (rule sha512_Unmarshal_frame)
qed

theorem C9_unmarshal_failure_frame_witness:
  "sha1_UnmarshalBinary ex_sha1 [0x73, 0x68, 0x61, 1, 5] =
       Some (ex_sha1, Some ''crypto/sha1: invalid hash state size'') \<and>
    sha224_UnmarshalBinary ex_sha256 [0x73, 0x68, 0x61, 1, 5] =
       Some (ex_sha256, Some ''crypto/sha256: invalid hash state identifier'') \<and>
    sha256_UnmarshalBinary ex_sha256 [0x73, 0x68, 0x61, 1, 5] =
       Some (ex_sha256, Some ''crypto/sha256: invalid hash state identifier'') \<and>
    sha384_UnmarshalBinary ex_sha512 [0x73, 0x68, 0x61, 1, 5] =
       Some (ex_sha512, Some ''crypto/sha512: invalid hash state identifier'') \<and>
    sha512_UnmarshalBinary ex_sha512 [0x73, 0x68, 0x61, 1, 5] =
       Some (ex_sha512, Some ''crypto/sha512: invalid hash state identifier'')"
proof -
  have e1: "\<exists>g. sha1_UnmarshalBinary ex_sha1 [0x73, 0x68, 0x61, 1, 5] = Some (g, Some ''crypto/sha1: invalid hash state size'')"
    by (simp add: sha1_UnmarshalBinary_def sha1Magic_def sha1MarshaledSize_def)
  have e2: "\<exists>g. sha224_UnmarshalBinary ex_sha256 [0x73, 0x68, 0x61, 1, 5] = Some (g, Some ''crypto/sha256: invalid hash state identifier'')"
    by (simp add: sha224_UnmarshalBinary_def magic224_def)
  have e3: "\<exists>g. sha256_UnmarshalBinary ex_sha256 [0x73, 0x68, 0x61, 1, 5] = Some (g, Some ''crypto/sha256: invalid hash state identifier'')"
    by (simp add: sha256_UnmarshalBinary_def magic256_def)
  have e4: "\<exists>g. sha384_UnmarshalBinary ex_sha512 [0x73, 0x68, 0x61, 1, 5] = Some (g, Some ''crypto/sha512: invalid hash state identifier'')"
    by (simp add: sha384_UnmarshalBinary_def magic384_def magic512_def)
  have e5: "\<exists>g. sha512_UnmarshalBinary ex_sha512 [0x73, 0x68, 0x61, 1, 5] = Some (g, Some ''crypto/sha512: invalid hash state identifier'')"
    by (simp add: sha512_UnmarshalBinary_def magic512_def)
  from e1 obtain g1 where g1: "sha1_UnmarshalBinary ex_sha1 [0x73, 0x68, 0x61, 1, 5] = Some (g1, Some ''crypto/sha1: invalid hash state size'')" ..
  from e2 obtain g2 where g2: "sha224_UnmarshalBinary ex_sha256 [0x73, 0x68, 0x61, 1, 5] = Some (g2, Some ''crypto/sha256: invalid hash state identifier'')" ..
  from e3 obtain g3 where g3: "sha256_UnmarshalBinary ex_sha256 [0x73, 0x68, 0x61, 1, 5] = Some (g3, Some ''crypto/sha256: invalid hash state identifier'')" ..
  from e4 obtain g4 where g4: "sha384_UnmarshalBinary ex_sha512 [0x73, 0x68, 0x61, 1, 5] = Some (g4, Some ''crypto/sha512: invalid hash state identifier'')" ..
  from e5 obtain g5 where g5: "sha512_UnmarshalBinary ex_sha512 [0x73, 0x68, 0x61, 1, 5] = Some (g5, Some ''crypto/sha512: invalid hash state identifier'')" ..
  note frame = C9_unmarshal_failure_frame [of ex_sha1 "[0x73, 0x68, 0x61, 1, 5]" g1 "''crypto/sha1: invalid hash state size''"
      ex_sha256 g2 "''crypto/sha256: invalid hash state identifier''"
      ex_sha256 g3 "''crypto/sha256: invalid hash state identifier''"
      ex_sha512 g4 "''crypto/sha512: invalid hash state identifier''"
      ex_sha512 g5 "''crypto/sha512: invalid hash state identifier''"]
  have "g1 = ex_sha1"
    by (rule frame [THEN conjunct1, THEN mp, OF g1])
  moreover have "g2 = ex_sha256"
    by (rule frame [THEN conjunct2, THEN conjunct1, THEN mp, OF g2])
  moreover have "g3 = ex_sha256"
    by (rule frame [THEN conjunct2, THEN conjunct2, THEN conjunct1, THEN mp, OF g3])
  moreover have "g4 = ex_sha512"
    by (rule frame [THEN conjunct2, THEN conjunct2, THEN conjunct2, THEN conjunct1, THEN mp, OF g4])
  moreover have "g5 = ex_sha512"
    by (rule frame [THEN conjunct2, THEN conjunct2, THEN conjunct2, THEN conjunct2, THEN mp, OF g5])
  ultimately show ?thesis
    using g1 g2 g3 g4 g5 by (simp only: simp_thms)
qed

text \<open>
  C10. The auxiliary write methods agree with Write. For the SHA-1, SHA-256, SHA-384 and
  SHA-512 adapters, for every algorithm, receiver and string \<open>s\<close>, WriteString s does
  what Write does on the bytes of \<open>s\<close> (the same panic, or the same receiver and the same
  return values), and when it returns it returns (length of \<open>s\<close>, nil). For every byte
  \<open>c\<close>, WriteByte c does what Write does on the one-byte slice [c], and when it returns it
  returns nil.
\<close>

theorem C10_aux_writes_agree:
  "(sha1_WriteString A1 s1 s = sha1_Write A1 s1 s \<and>
     (case sha1_WriteString A1 s1 s of None \<Rightarrow> True | Some (h', n, e) \<Rightarrow> n = length s \<and> e = None) \<and>
     sha1_WriteByte A1 s1 c = map_option (\<lambda>(h', n, e). (h', e)) (sha1_Write A1 s1 [c]) \<and>
     (case sha1_WriteByte A1 s1 c of None \<Rightarrow> True | Some (h', e) \<Rightarrow> e = None)) \<and>
    (sha256_WriteString A256 s256 s = sha256_Write A256 s256 s \<and>
     (case sha256_WriteString A256 s256 s of None \<Rightarrow> True | Some (h', n, e) \<Rightarrow> n = length s \<and> e = None) \<and>
     sha256_WriteByte A256 s256 c = map_option (\<lambda>(h', n, e). (h', e)) (sha256_Write A256 s256 [c]) \<and>
     (case sha256_WriteByte A256 s256 c of None \<Rightarrow> True | Some (h', e) \<Rightarrow> e = None)) \<and>
    (sha384_WriteString A384 s384 s = sha384_Write A384 s384 s \<and>
     (case sha384_WriteString A384 s384 s of None \<Rightarrow> True | Some (h', n, e) \<Rightarrow> n = length s \<and> e = None) \<and>
     sha384_WriteByte A384 s384 c = map_option (\<lambda>(h', n, e). (h', e)) (sha384_Write A384 s384 [c]) \<and>
     (case sha384_WriteByte A384 s384 c of None \<Rightarrow> True | Some (h', e) \<Rightarrow> e = None)) \<and>
    (sha512_WriteString A512 s512 s = sha512_Write A512 s512 s \<and>
     (case sha512_WriteString A512 s512 s of None \<Rightarrow> True | Some (h', n, e) \<Rightarrow> n = length s \<and> e = None) \<and>
     sha512_WriteByte A512 s512 c = map_option (\<lambda>(h', n, e). (h', e)) (sha512_Write A512 s512 [c]) \<and>
     (case sha512_WriteByte A512 s512 c of None \<Rightarrow> True | Some (h', e) \<Rightarrow> e = None))"
proof -
  have sha1: "sha1_WriteString A1 s1 s = sha1_Write A1 s1 s \<and>
     (case sha1_WriteString A1 s1 s of None \<Rightarrow> True | Some (h', n, e) \<Rightarrow> n = length s \<and> e = None) \<and>
     sha1_WriteByte A1 s1 c = map_option (\<lambda>(h', n, e). (h', e)) (sha1_Write A1 s1 [c]) \<and>
     (case sha1_WriteByte A1 s1 c of None \<Rightarrow> True | Some (h', e) \<Rightarrow> e = None)"
    by (auto simp: sha1_WriteString_Write sha1_WriteByte_Write sha1_Write_gen
        split: option.splits dest: gen_Write_ret)
  have sha256: "sha256_WriteString A256 s256 s = sha256_Write A256 s256 s \<and>
     (case sha256_WriteString A256 s256 s of None \<Rightarrow> True | Some (h', n, e) \<Rightarrow> n = length s \<and> e = None) \<and>
     sha256_WriteByte A256 s256 c = map_option (\<lambda>(h', n, e). (h', e)) (sha256_Write A256 s256 [c]) \<and>
     (case sha256_WriteByte A256 s256 c of None \<Rightarrow> True | Some (h', e) \<Rightarrow> e = None)"
    by (auto simp: sha256_WriteString_Write sha256_WriteByte_Write sha256_Write_gen
        split: option.splits dest: gen_Write_ret)
  have sha384: "sha384_WriteString A384 s384 s = sha384_Write A384 s384 s \<and>
     (case sha384_WriteString A384 s384 s of None \<Rightarrow> True | Some (h', n, e) \<Rightarrow> n = length s \<and> e = None) \<and>
     sha384_WriteByte A384 s384 c = map_option (\<lambda>(h', n, e). (h', e)) (sha384_Write A384 s384 [c]) \<and>
     (case sha384_WriteByte A384 s384 c of None \<Rightarrow> True | Some (h', e) \<Rightarrow> e = None)"
    by (auto simp: sha384_WriteString_Write sha384_WriteByte_Write sha384_Write_gen
        split: option.splits dest: gen_Write_ret)
  have sha512: "sha512_WriteString A512 s512 s = sha512_Write A512 s512 s \<and>
     (case sha512_WriteString A512 s512 s of None \<Rightarrow> True | Some (h', n, e) \<Rightarrow> n = length s \<and> e = None) \<and>
     sha512_WriteByte A512 s512 c = map_option (\<lambda>(h', n, e). (h', e)) (sha512_Write A512 s512 [c]) \<and>
     (case sha512_WriteByte A512 s512 c of None \<Rightarrow> True | Some (h', e) \<Rightarrow> e = None)"
    by (auto simp: sha512_WriteString_Write sha512_WriteByte_Write sha512_Write_gen
        split: option.splits dest: gen_Write_ret)
  show ?thesis
    by (rule conjI [OF sha1 conjI [OF sha256 conjI [OF sha384 sha512]]])
qed

theorem C10_aux_writes_agree_witness:
  "sha1_WriteString demo5 ex_sha1 [1] =
       Some (ex_sha1\<lparr>ctx := (ctx ex_sha1)\<lparr>ctx_nl := 32, ctx_x := [7, 8, 9, 1] @ replicate 60 0, ctx_nx := 4\<rparr>\<rparr>, 1, None) \<and>
    sha1_WriteByte demo5 ex_sha1 1 =
       Some (ex_sha1\<lparr>ctx := (ctx ex_sha1)\<lparr>ctx_nl := 32, ctx_x := [7, 8, 9, 1] @ replicate 60 0, ctx_nx := 4\<rparr>\<rparr>, None) \<and>
    sha256_WriteString demo8 ex_sha256 [1] =
       Some (ex_sha256\<lparr>ctx := (ctx ex_sha256)\<lparr>ctx_nl := 32, ctx_x := [7, 8, 9, 1] @ replicate 60 0, ctx_nx := 4\<rparr>\<rparr>, 1, None) \<and>
    sha256_WriteByte demo8 ex_sha256 1 =
       Some (ex_sha256\<lparr>ctx := (ctx ex_sha256)\<lparr>ctx_nl := 32, ctx_x := [7, 8, 9, 1] @ replicate 60 0, ctx_nx := 4\<rparr>\<rparr>, None) \<and>
    sha384_WriteString demo8l ex_sha512 [1] =
       Some (ex_sha512\<lparr>ctx := (ctx ex_sha512)\<lparr>ctx_nl := 32, ctx_x := [7, 8, 9, 1] @ replicate 124 0, ctx_nx := 4\<rparr>\<rparr>, 1, None) \<and>
    sha384_WriteByte demo8l ex_sha512 1 =
       Some (ex_sha512\<lparr>ctx := (ctx ex_sha512)\<lparr>ctx_nl := 32, ctx_x := [7, 8, 9, 1] @ replicate 124 0, ctx_nx := 4\<rparr>\<rparr>, None) \<and>
    sha512_WriteString demo8l ex_sha512 [1] =
       Some (ex_sha512\<lparr>ctx := (ctx ex_sha512)\<lparr>ctx_nl := 32, ctx_x := [7, 8, 9, 1] @ replicate 124 0, ctx_nx := 4\<rparr>\<rparr>, 1, None) \<and>
    sha512_WriteByte demo8l ex_sha512 1 =
       Some (ex_sha512\<lparr>ctx := (ctx ex_sha512)\<lparr>ctx_nl := 32, ctx_x := [7, 8, 9, 1] @ replicate 124 0, ctx_nx := 4\<rparr>\<rparr>, None)"
  using C10_aux_writes_agree [where ?A1.0 = demo5 and ?s1.0 = ex_sha1
      and ?A256.0 = demo8 and ?s256.0 = ex_sha256 and ?A384.0 = demo8l and ?s384.0 = ex_sha512
      and ?A512.0 = demo8l and ?s512.0 = ex_sha512 and s = "[1]" and c = 1]
  by (simp add: sha1_ex_Write sha256_ex_Write sha384_ex_Write sha512_ex_Write)

end
